theory Spec2Isabelle
  imports Main
begin

section \<open>Python preliminaries\<close>

text \<open>
  Python exceptions that the modelled code can raise are values of \<open>py_error\<close>; a
  computation that may raise returns \<open>py_error + 'a\<close>, with \<open>Inl\<close> for the exception.
  \<open>NoMatches\<close> is what a failed \<open>query_one\<close> raises.
\<close>

datatype py_error = ValueError | IndexError | KeyError | ZeroDivisionError | NoMatches

text \<open>
  A Python \<open>str\<close> is modelled as a \<open>string\<close> whose characters are the code points
  below 256. On these, \<open>str.lower\<close> maps \<open>A\<close>..\<open>Z\<close> and the Latin-1 capitals
  (192..222 except the multiplication sign 215) to the code point 32 above, and
  \<open>str.isspace\<close> holds for 9..13, 28..32, 133 and 160.
\<close>

definition lower_char :: "char \<Rightarrow> char" where
  "lower_char c =
     (let n = (of_char c :: nat)
      in if (65 \<le> n \<and> n \<le> 90) \<or> (192 \<le> n \<and> n \<le> 222 \<and> n \<noteq> 215)
         then char_of (n + 32) else c)"

definition lower :: "string \<Rightarrow> string" where
  "lower s = map lower_char s"

definition isspace :: "char \<Rightarrow> bool" where
  "isspace c =
     (let n = (of_char c :: nat)
      in (9 \<le> n \<and> n \<le> 13) \<or> (28 \<le> n \<and> n \<le> 32) \<or> n = 133 \<or> n = 160)"

definition lstrip :: "string \<Rightarrow> string" where
  "lstrip s = dropWhile isspace s"

definition rstrip :: "string \<Rightarrow> string" where
  "rstrip s = rev (dropWhile isspace (rev s))"

definition strip :: "string \<Rightarrow> string" where
  "strip s = rstrip (lstrip s)"

text \<open>Subscription \<open>xs[i]\<close>: a negative index counts from the end, out of range raises.\<close>

definition getitem :: "'a list \<Rightarrow> int \<Rightarrow> py_error + 'a" where
  "getitem xs i =
     (if 0 \<le> i \<and> i < int (length xs) then Inr (xs ! nat i)
      else if i < 0 \<and> - int (length xs) \<le> i then Inr (xs ! nat (int (length xs) + i))
      else Inl IndexError)"

text \<open>\<open>a % b\<close> on integers: the result has the sign of \<open>b\<close>; \<open>b = 0\<close> raises.\<close>

definition py_mod :: "int \<Rightarrow> int \<Rightarrow> py_error + int" where
  "py_mod a b = (if b \<noteq> 0 then Inr (a mod b) else Inl ZeroDivisionError)"

text \<open>\<open>xs.index(x)\<close>: the first position of \<open>x\<close>, \<open>ValueError\<close> when absent.\<close>

fun list_index :: "'a list \<Rightarrow> 'a \<Rightarrow> py_error + int" where
  "list_index [] x = Inl ValueError"
| "list_index (y # ys) x =
     (if y = x then Inr 0
      else case list_index ys x of Inl e \<Rightarrow> Inl e | Inr i \<Rightarrow> Inr (i + 1))"

text \<open>\<open>d[k]\<close> on a dict given as its ordered list of items.\<close>

definition dict_getitem :: "('k \<times> 'v) list \<Rightarrow> 'k \<Rightarrow> py_error + 'v" where
  "dict_getitem d k = (case map_of d k of None \<Rightarrow> Inl KeyError | Some v \<Rightarrow> Inr v)"

text \<open>Sequencing of computations that may raise.\<close>

definition bind_err :: "py_error + 'a \<Rightarrow> ('a \<Rightarrow> py_error + 'b) \<Rightarrow> py_error + 'b" where
  "bind_err r f = (case r of Inl e \<Rightarrow> Inl e | Inr x \<Rightarrow> f x)"

section \<open>vibe/core/modes.py\<close>

datatype ModeSafety = SAFE | NEUTRAL | YOLO

datatype AgentMode = DEFAULT | AUTO_APPROVE | PLAN

text \<open>The members in declaration order, their names, and their values: in a
  \<open>StrEnum\<close>, \<open>auto()\<close> gives each member its lower-cased name.\<close>

definition AgentMode_members :: "AgentMode list" where
  "AgentMode_members = [DEFAULT, AUTO_APPROVE, PLAN]"

fun AgentMode_name :: "AgentMode \<Rightarrow> string" where
  "AgentMode_name DEFAULT = ''DEFAULT''"
| "AgentMode_name AUTO_APPROVE = ''AUTO_APPROVE''"
| "AgentMode_name PLAN = ''PLAN''"

definition AgentMode_value :: "AgentMode \<Rightarrow> string" where
  "AgentMode_value m = lower (AgentMode_name m)"

text \<open>\<open>AgentMode(v)\<close>: lookup of a member by value, \<open>ValueError\<close> when none has it.\<close>

definition AgentMode_call :: "string \<Rightarrow> py_error + AgentMode" where
  "AgentMode_call v =
     (case find (\<lambda>m. AgentMode_value m = v) AgentMode_members of
        None \<Rightarrow> Inl ValueError
      | Some m \<Rightarrow> Inr m)"

text \<open>\<open>from_string\<close> catches \<open>ValueError\<close> only; any other exception would propagate.\<close>

definition from_string :: "string \<Rightarrow> py_error + AgentMode option" where
  "from_string v =
     (case AgentMode_call (lower v) of
        Inr m \<Rightarrow> Inr (Some m)
      | Inl ValueError \<Rightarrow> Inr None
      | Inl e \<Rightarrow> Inl e)"

text \<open>\<open>config_overrides\<close> is a \<open>dict[str, Any]\<close>; the only values that occur are lists
  of tool names.\<close>

record ModeConfig =
  cfg_display_name :: string
  cfg_description :: string
  cfg_safety :: ModeSafety
  cfg_auto_approve :: bool
  cfg_config_overrides :: "(string \<times> string list) list"

definition PLAN_MODE_TOOLS :: "string list" where
  "PLAN_MODE_TOOLS = [''grep'', ''read_file'', ''todo'']"

definition MODE_CONFIGS :: "(AgentMode \<times> ModeConfig) list" where
  "MODE_CONFIGS =
     [(DEFAULT, \<lparr>cfg_display_name = ''Default'',
                 cfg_description = ''Requires approval for tool executions'',
                 cfg_safety = NEUTRAL,
                 cfg_auto_approve = False,
                 cfg_config_overrides = []\<rparr>),
      (PLAN, \<lparr>cfg_display_name = ''Plan'',
              cfg_description = ''Read-only mode for exploration and planning'',
              cfg_safety = SAFE,
              cfg_auto_approve = True,
              cfg_config_overrides = [(''enabled_tools'', PLAN_MODE_TOOLS)]\<rparr>),
      (AUTO_APPROVE, \<lparr>cfg_display_name = ''Auto Approve'',
                      cfg_description = ''Auto-approves all tool executions'',
                      cfg_safety = YOLO,
                      cfg_auto_approve = True,
                      cfg_config_overrides = []\<rparr>)]"

text \<open>The properties of \<open>AgentMode\<close>, each a subscription of \<open>MODE_CONFIGS\<close>.\<close>

definition display_name :: "AgentMode \<Rightarrow> py_error + string" where
  "display_name m = bind_err (dict_getitem MODE_CONFIGS m) (\<lambda>c. Inr (cfg_display_name c))"

definition description :: "AgentMode \<Rightarrow> py_error + string" where
  "description m = bind_err (dict_getitem MODE_CONFIGS m) (\<lambda>c. Inr (cfg_description c))"

definition config_overrides :: "AgentMode \<Rightarrow> py_error + (string \<times> string list) list" where
  "config_overrides m =
     bind_err (dict_getitem MODE_CONFIGS m) (\<lambda>c. Inr (cfg_config_overrides c))"

definition auto_approve :: "AgentMode \<Rightarrow> py_error + bool" where
  "auto_approve m = bind_err (dict_getitem MODE_CONFIGS m) (\<lambda>c. Inr (cfg_auto_approve c))"

definition safety :: "AgentMode \<Rightarrow> py_error + ModeSafety" where
  "safety m = bind_err (dict_getitem MODE_CONFIGS m) (\<lambda>c. Inr (cfg_safety c))"

definition get_mode_order :: "AgentMode list" where
  "get_mode_order = [AUTO_APPROVE, PLAN, DEFAULT]"

definition next_mode :: "AgentMode \<Rightarrow> py_error + AgentMode" where
  "next_mode current =
     (let order = get_mode_order
      in bind_err (list_index order current) (\<lambda>idx.
         bind_err (py_mod (idx + 1) (int (length order))) (\<lambda>j.
         getitem order j)))"

text \<open>The spec's reading of "any casing of a variant name": the same length, and at each
  position the same character or the same ASCII letter in the other case.\<close>

definition same_letter :: "char \<Rightarrow> char \<Rightarrow> bool" where
  "same_letter c d =
     (let m = (of_char c :: nat); n = (of_char d :: nat)
      in c = d \<or> (65 \<le> n \<and> n \<le> 90 \<and> m = n + 32) \<or> (97 \<le> n \<and> n \<le> 122 \<and> m + 32 = n))"

definition is_casing_of :: "string \<Rightarrow> string \<Rightarrow> bool" where
  "is_casing_of s n = list_all2 same_letter s n"

section \<open>vibe/cli/textual_ui/widgets/mode_indicator.py\<close>

text \<open>The icons are glyphs outside the modelled character range; they are kept as
  names: \<open>PLAY\<close> is U+23F5, \<open>PAUSE\<close> is U+23F8 U+FE0E, \<open>PLAY_PLAY\<close> is U+23F5 twice
  and \<open>QUESTION_MARKS\<close> is the fallback \<open>??\<close>.\<close>

datatype glyphs = PLAY | PAUSE | PLAY_PLAY | QUESTION_MARKS

definition MODE_ICONS :: "(AgentMode \<times> glyphs) list" where
  "MODE_ICONS = [(DEFAULT, PLAY), (PLAN, PAUSE), (AUTO_APPROVE, PLAY_PLAY)]"

definition SAFETY_CLASSES :: "(ModeSafety \<times> string) list" where
  "SAFETY_CLASSES = [(SAFE, ''mode-safe''), (NEUTRAL, ''mode-neutral''), (YOLO, ''mode-yolo'')]"

text \<open>\<open>d.get(k, default)\<close>.\<close>

definition dict_get :: "('k \<times> 'v) list \<Rightarrow> 'k \<Rightarrow> 'v \<Rightarrow> 'v" where
  "dict_get d k dflt = (case map_of d k of None \<Rightarrow> dflt | Some v \<Rightarrow> v)"

text \<open>CSS classes of a widget, in the order they were added.\<close>

definition add_class :: "string \<Rightarrow> string list \<Rightarrow> string list" where
  "add_class c cs = (if c \<in> set cs then cs else cs @ [c])"

definition remove_class :: "string \<Rightarrow> string list \<Rightarrow> string list" where
  "remove_class c cs = removeAll c cs"

text \<open>The indicator: \<open>mi_renderable\<close> is what the last \<open>update\<close> displayed, the icon
  and the text after it.\<close>

record ModeIndicator =
  can_focus :: bool
  mode :: AgentMode
  mi_renderable :: "(glyphs \<times> string) option"
  mi_classes :: "string list"

definition ModeIndicator_update_display :: "ModeIndicator \<Rightarrow> py_error + ModeIndicator" where
  "ModeIndicator_update_display self =
     (let icon = dict_get MODE_ICONS (mode self) QUESTION_MARKS
      in bind_err (display_name (mode self)) (\<lambda>dn.
         let name = lower dn;
             self1 = self\<lparr>mi_renderable := Some (icon, '' '' @ name @ '' mode (shift+tab to cycle)'')\<rparr>;
             self2 = self1\<lparr>mi_classes := fold remove_class (map snd SAFETY_CLASSES) (mi_classes self1)\<rparr>
         in bind_err (safety (mode self2)) (\<lambda>sf.
            bind_err (dict_getitem SAFETY_CLASSES sf) (\<lambda>cls.
            Inr (self2\<lparr>mi_classes := add_class cls (mi_classes self2)\<rparr>)))))"

text \<open>The constructor; \<open>None\<close> is a call without the \<open>mode\<close> argument.\<close>

definition ModeIndicator_init :: "AgentMode option \<Rightarrow> py_error + ModeIndicator" where
  "ModeIndicator_init mode_arg =
     (let m = (case mode_arg of None \<Rightarrow> AUTO_APPROVE | Some m' \<Rightarrow> m')
      in ModeIndicator_update_display
           \<lparr>can_focus = False, mode = m, mi_renderable = None, mi_classes = []\<rparr>)"

definition set_mode :: "ModeIndicator \<Rightarrow> AgentMode \<Rightarrow> py_error + ModeIndicator" where
  "set_mode self m = ModeIndicator_update_display (self\<lparr>mode := m\<rparr>)"

section \<open>vibe/cli/textual_ui/widgets/question_app.py\<close>

subsection \<open>Input data\<close>

text \<open>Modelled from the spec: the declarations of \<open>Choice\<close>, \<open>Question\<close> and
  \<open>AskUserArgs\<close> (module \<open>vibe.core.tools.builtins.ask_user\<close>) are not among the
  sources. A choice has a label and an optional description, a question has its text
  and an ordered, possibly empty sequence of choices, and the arguments carry the
  questions.\<close>

record Choice =
  label :: string
  choice_description :: "string option"

record Question =
  question :: string
  choices :: "Choice list"

record AskUserArgs =
  args_questions :: "Question list"

subsection \<open>Widgets and messages\<close>

record Static =
  renderable :: string
  classes :: "string list"

record EscapableInput =
  placeholder :: string
  input_classes :: "string list"
  input_value :: string

datatype message =
    EscapePressed
  | CancelRequested
  | Answered "(string \<times> string \<times> bool) list"
  | Cancelled

record Key =
  key :: string
  stopped :: bool

text \<open>A handler returns the event as it leaves it and the messages it posted.\<close>

definition EscapableInput_on_key :: "Key \<Rightarrow> Key \<times> message list" where
  "EscapableInput_on_key event =
     (if key event = ''escape'' then (event\<lparr>stopped := True\<rparr>, [EscapePressed])
      else (event, []))"

subsection \<open>QuestionTab\<close>

record QuestionTab =
  tab_renderable :: string
  tab_classes :: "string list"
  tab_label :: string
  tab_index :: nat
  is_active :: bool

definition QuestionTab_init :: "string \<Rightarrow> nat \<Rightarrow> bool \<Rightarrow> QuestionTab" where
  "QuestionTab_init lbl idx active =
     \<lparr>tab_renderable = [], tab_classes = [''question-tab''],
      tab_label = lbl, tab_index = idx, is_active = active\<rparr>"

definition QuestionTab_update_display :: "QuestionTab \<Rightarrow> QuestionTab" where
  "QuestionTab_update_display self =
     (let self1 = self\<lparr>tab_renderable := tab_label self\<rparr>
      in if is_active self1
         then self1\<lparr>tab_classes := add_class ''question-tab-active'' (tab_classes self1)\<rparr>
         else self1\<lparr>tab_classes := remove_class ''question-tab-active'' (tab_classes self1)\<rparr>)"

definition QuestionTab_on_mount :: "QuestionTab \<Rightarrow> QuestionTab" where
  "QuestionTab_on_mount self = QuestionTab_update_display self"

definition set_active :: "QuestionTab \<Rightarrow> bool \<Rightarrow> QuestionTab" where
  "set_active self active = QuestionTab_update_display (self\<lparr>is_active := active\<rparr>)"

subsection \<open>QuestionPanel\<close>

text \<open>A call of \<open>focus()\<close> is recorded in \<open>focus_calls\<close>: on the text input
  (\<open>FocusInput\<close>) or on the panel itself (\<open>FocusPanel\<close>). \<open>question_text\<close> and
  \<open>padding\<close> are the children that \<open>compose\<close> yields besides the option widgets and
  the input line; \<open>question_text\<close> is the one that \<open>query_one(".question-text")\<close> finds.
  A widget that is not \<open>None\<close> is truthy.\<close>

datatype focus_target = FocusInput | FocusPanel

record QuestionPanel =
  panel_classes :: "string list"
  question_data :: Question
  panel_index :: nat
  panel_choices :: "Choice list"
  panel_max_choices :: int
  selected_option :: int
  total_options :: int
  option_widgets :: "Static list"
  text_input :: "EscapableInput option"
  other_cursor :: "Static option"
  is_other_mode :: bool
  question_text :: "Static option"
  padding :: "Static option"
  display :: bool
  focus_calls :: "focus_target list"

definition QuestionPanel_action_cancel :: "message list" where
  "QuestionPanel_action_cancel = [CancelRequested]"

definition on_escapable_input_escape_pressed :: "message list" where
  "on_escapable_input_escape_pressed = [CancelRequested]"

definition QuestionPanel_on_key :: "Key \<Rightarrow> Key \<times> message list" where
  "QuestionPanel_on_key event =
     (if key event = ''escape'' then (event\<lparr>stopped := True\<rparr>, [CancelRequested])
      else (event, []))"

text \<open>The constructor. \<open>question.choices or []\<close> replaces a falsy value by the empty list.\<close>

definition QuestionPanel_init :: "Question \<Rightarrow> nat \<Rightarrow> int \<Rightarrow> QuestionPanel" where
  "QuestionPanel_init q idx max_ch =
     (let chs = (if choices q = [] then [] else choices q)
      in \<lparr>panel_classes = [''question-panel''],
          question_data = q,
          panel_index = idx,
          panel_choices = chs,
          panel_max_choices = max_ch,
          selected_option = 0,
          total_options = int (length chs) + 1,
          option_widgets = [],
          text_input = None,
          other_cursor = None,
          is_other_mode = False,
          question_text = None,
          padding = None,
          display = True,
          focus_calls = []\<rparr>)"

definition QuestionPanel_compose :: "QuestionPanel \<Rightarrow> QuestionPanel" where
  "QuestionPanel_compose self =
     (let padding_lines = panel_max_choices self - int (length (panel_choices self))
      in self\<lparr>question_text :=
                 Some \<lparr>renderable = question (question_data self), classes = [''question-text'']\<rparr>,
               option_widgets :=
                 option_widgets self @
                 replicate (length (panel_choices self))
                   \<lparr>renderable = [], classes = [''question-option'']\<rparr>,
               other_cursor :=
                 Some \<lparr>renderable = ''  '', classes = [''question-other-cursor'']\<rparr>,
               text_input :=
                 Some \<lparr>placeholder = ''_'', input_classes = [''question-other-input''],
                       input_value = []\<rparr>,
               padding :=
                 (if padding_lines > 0
                  then Some \<lparr>renderable = replicate (nat (padding_lines - 1)) (CHR 0x0A),
                             classes = [''question-padding'']\<rparr>
                  else None)\<rparr>)"

text \<open>The loop of \<open>_update_options\<close> over \<open>enumerate(self.option_widgets)\<close>;
  \<open>self.choices[idx]\<close> raises when there are more widgets than choices. A description
  that is \<open>None\<close> or empty is falsy.\<close>

fun update_option_widgets ::
  "Choice list \<Rightarrow> int \<Rightarrow> nat \<Rightarrow> Static list \<Rightarrow> py_error + Static list" where
  "update_option_widgets chs sel idx [] = Inr []"
| "update_option_widgets chs sel idx (widget # ws) =
     bind_err (getitem chs (int idx)) (\<lambda>choice.
       let is_selected = (int idx = sel);
           text = label choice @
                  (case choice_description choice of
                     None \<Rightarrow> []
                   | Some d \<Rightarrow> if d = [] then [] else '' - '' @ d);
           cursor = (if is_selected then ''> '' else ''  '');
           w1 = widget\<lparr>renderable := cursor @ text\<rparr>;
           w2 = w1\<lparr>classes := remove_class ''question-option-selected'' (classes w1)\<rparr>;
           w3 = (if is_selected
                 then w2\<lparr>classes := add_class ''question-option-selected'' (classes w2)\<rparr>
                 else w2)
       in bind_err (update_option_widgets chs sel (Suc idx) ws) (\<lambda>rest. Inr (w3 # rest)))"

definition update_options :: "QuestionPanel \<Rightarrow> py_error + QuestionPanel" where
  "update_options self =
     bind_err (update_option_widgets (panel_choices self) (selected_option self) 0
                 (option_widgets self)) (\<lambda>ws.
       let self1 = self\<lparr>option_widgets := ws\<rparr>;
           is_other_selected = (selected_option self1 = int (length (panel_choices self1)));
           was_other_mode = is_other_mode self1;
           self2 = (case other_cursor self1 of
                      None \<Rightarrow> self1
                    | Some cur \<Rightarrow>
                        self1\<lparr>other_cursor :=
                          Some (cur\<lparr>renderable := (if is_other_selected then ''> '' else ''  '')\<rparr>)\<rparr>)
       in Inr (case text_input self2 of
                 None \<Rightarrow> self2
               | Some inp \<Rightarrow>
                   (let self3 = self2\<lparr>is_other_mode := is_other_selected\<rparr>
                    in if is_other_selected
                       then self3\<lparr>focus_calls := focus_calls self3 @ [FocusInput]\<rparr>
                       else if was_other_mode
                       then self3\<lparr>focus_calls := focus_calls self3 @ [FocusPanel]\<rparr>
                       else self3)))"

definition QuestionPanel_on_mount :: "QuestionPanel \<Rightarrow> py_error + QuestionPanel" where
  "QuestionPanel_on_mount self = update_options self"

definition move_up :: "QuestionPanel \<Rightarrow> py_error + QuestionPanel" where
  "move_up self =
     bind_err (py_mod (selected_option self - 1) (total_options self)) (\<lambda>sel.
       update_options (self\<lparr>selected_option := sel\<rparr>))"

definition move_down :: "QuestionPanel \<Rightarrow> py_error + QuestionPanel" where
  "move_down self =
     bind_err (py_mod (selected_option self + 1) (total_options self)) (\<lambda>sel.
       update_options (self\<lparr>selected_option := sel\<rparr>))"

definition get_answer :: "QuestionPanel \<Rightarrow> py_error + (string \<times> bool)" where
  "get_answer self =
     (if selected_option self < int (length (panel_choices self))
      then bind_err (getitem (panel_choices self) (selected_option self)) (\<lambda>choice.
             Inr (label choice, False))
      else (case text_input self of
              Some inp \<Rightarrow> Inr (strip (input_value inp), True)
            | None \<Rightarrow> Inr ([], True)))"

definition focus_input :: "QuestionPanel \<Rightarrow> QuestionPanel" where
  "focus_input self =
     (if is_other_mode self \<and> text_input self \<noteq> None
      then self\<lparr>focus_calls := focus_calls self @ [FocusInput]\<rparr>
      else self\<lparr>focus_calls := focus_calls self @ [FocusPanel]\<rparr>)"

text \<open>The free-text buffer of the spec is the value of the text input; a panel that
  has not been composed has no input, and \<open>get_answer\<close> reads it as empty.\<close>

definition other_text :: "QuestionPanel \<Rightarrow> string" where
  "other_text self = (case text_input self of None \<Rightarrow> [] | Some inp \<Rightarrow> input_value inp)"

text \<open>\<open>n\<close> calls of a method in a row, stopping at the first exception.\<close>

fun repeat_call :: "('s \<Rightarrow> py_error + 's) \<Rightarrow> nat \<Rightarrow> 's \<Rightarrow> py_error + 's" where
  "repeat_call f 0 s = Inr s"
| "repeat_call f (Suc n) s = bind_err (f s) (repeat_call f n)"

subsection \<open>QuestionApp\<close>

text \<open>\<open>str(n)\<close> for a natural number, as used in the tab label \<open>f"Q{i + 1}"\<close>.\<close>

fun digits :: "nat \<Rightarrow> string" where
  "digits n =
     (if n < 10 then [char_of (48 + n)]
      else digits (n div 10) @ [char_of (48 + n mod 10)])"

declare digits.simps [simp del]

text \<open>The session controller. \<open>posted\<close> is the sequence of messages it has posted. The
  help text is a static string with arrow glyphs and is left out.\<close>

record QuestionApp =
  args :: AskUserArgs
  questions :: "Question list"
  current_tab :: int
  tab_widgets :: "QuestionTab list"
  panel_widgets :: "QuestionPanel list"
  max_choices :: int
  posted :: "message list"

definition QuestionApp_init :: "AskUserArgs \<Rightarrow> QuestionApp" where
  "QuestionApp_init a =
     \<lparr>args = a,
      questions = args_questions a,
      current_tab = 0,
      tab_widgets = [],
      panel_widgets = [],
      max_choices =
        (case map (\<lambda>q. int (length (choices q))) (args_questions a) of
           [] \<Rightarrow> 6
         | n # ns \<Rightarrow> fold max ns n),
      posted = []\<rparr>"

text \<open>\<open>compose\<close> creates the tabs (only for more than one question) and the panels.\<close>

definition QuestionApp_compose :: "QuestionApp \<Rightarrow> QuestionApp" where
  "QuestionApp_compose self =
     (let self1 =
            (if length (questions self) > 1
             then self\<lparr>tab_widgets := tab_widgets self @
                    map (\<lambda>(i, q). QuestionTab_init (''Q'' @ digits (i + 1)) i (i = 0))
                      (enumerate 0 (questions self))\<rparr>
             else self)
      in self1\<lparr>panel_widgets := panel_widgets self1 @
           map (\<lambda>(i, q). (QuestionPanel_init q i (max_choices self1))\<lparr>display := (i = 0)\<rparr>)
             (enumerate 0 (questions self1))\<rparr>)"

text \<open>Mounting: every tab runs \<open>on_mount\<close>, every panel is composed and runs
  \<open>on_mount\<close>, in order.\<close>

fun mount_panels :: "QuestionPanel list \<Rightarrow> py_error + QuestionPanel list" where
  "mount_panels [] = Inr []"
| "mount_panels (p # ps) =
     bind_err (QuestionPanel_on_mount (QuestionPanel_compose p)) (\<lambda>p'.
     bind_err (mount_panels ps) (\<lambda>ps'. Inr (p' # ps')))"

definition mount_children :: "QuestionApp \<Rightarrow> py_error + QuestionApp" where
  "mount_children self =
     bind_err (mount_panels (panel_widgets self)) (\<lambda>ps.
       Inr (self\<lparr>tab_widgets := map QuestionTab_on_mount (tab_widgets self),
                 panel_widgets := ps\<rparr>))"

text \<open>\<open>panel.query_one(".question-text")\<close> followed by a change of its classes.\<close>

definition query_question_text :: "QuestionPanel \<Rightarrow> py_error + Static" where
  "query_question_text p = (case question_text p of None \<Rightarrow> Inl NoMatches | Some w \<Rightarrow> Inr w)"

definition change_question_text_classes ::
  "(string list \<Rightarrow> string list) \<Rightarrow> QuestionPanel \<Rightarrow> py_error + QuestionPanel" where
  "change_question_text_classes f p =
     bind_err (query_question_text p) (\<lambda>w.
       Inr (p\<lparr>question_text := Some (w\<lparr>classes := f (classes w)\<rparr>)\<rparr>))"

text \<open>A method call on the object \<open>xs[i]\<close>: the list holds the object as the call
  leaves it.\<close>

definition update_at :: "'a list \<Rightarrow> int \<Rightarrow> ('a \<Rightarrow> py_error + 'a) \<Rightarrow> py_error + 'a list" where
  "update_at xs i f =
     bind_err (getitem xs i) (\<lambda>x.
     bind_err (f x) (\<lambda>x'.
       Inr (xs[nat (if i < 0 then int (length xs) + i else i) := x'])))"

text \<open>\<open>on_mount\<close>; the call scheduled with \<open>call_after_refresh\<close> runs before the next
  command.\<close>

definition QuestionApp_on_mount :: "QuestionApp \<Rightarrow> py_error + QuestionApp" where
  "QuestionApp_on_mount self =
     (if panel_widgets self \<noteq> []
      then bind_err (update_at (panel_widgets self) 0
                       (change_question_text_classes (add_class ''question-text-active''))) (\<lambda>ps1.
           bind_err (update_at ps1 0 (\<lambda>p. Inr (focus_input p))) (\<lambda>ps2.
             Inr (self\<lparr>panel_widgets := ps2\<rparr>)))
      else Inr self)"

definition start :: "AskUserArgs \<Rightarrow> py_error + QuestionApp" where
  "start a =
     bind_err (mount_children (QuestionApp_compose (QuestionApp_init a))) QuestionApp_on_mount"

definition get_current_panel :: "QuestionApp \<Rightarrow> QuestionPanel option" where
  "get_current_panel self =
     (if 0 \<le> current_tab self \<and> current_tab self < int (length (panel_widgets self))
      then Some (panel_widgets self ! nat (current_tab self))
      else None)"

definition switch_tab :: "QuestionApp \<Rightarrow> int \<Rightarrow> py_error + QuestionApp" where
  "switch_tab self new_tab =
     (if new_tab = current_tab self then Inr self
      else
        bind_err
          (if tab_widgets self \<noteq> []
           then bind_err (update_at (tab_widgets self) (current_tab self)
                            (\<lambda>t. Inr (set_active t False))) (\<lambda>ts.
                update_at ts new_tab (\<lambda>t. Inr (set_active t True)))
           else Inr (tab_widgets self)) (\<lambda>tabs.
        bind_err (getitem (panel_widgets self) (current_tab self)) (\<lambda>old_panel.
        bind_err (getitem (panel_widgets self) new_tab) (\<lambda>new_panel.
        bind_err (update_at (panel_widgets self) (current_tab self)
                    (change_question_text_classes (remove_class ''question-text-active''))) (\<lambda>ps1.
        bind_err (update_at ps1 new_tab
                    (change_question_text_classes (add_class ''question-text-active''))) (\<lambda>ps2.
        bind_err (update_at ps2 (current_tab self) (\<lambda>p. Inr (p\<lparr>display := False\<rparr>))) (\<lambda>ps3.
        bind_err (update_at ps3 new_tab (\<lambda>p. Inr (p\<lparr>display := True\<rparr>))) (\<lambda>ps4.
        bind_err (update_at ps4 new_tab (\<lambda>p. Inr (focus_input p))) (\<lambda>ps5.
          Inr (self\<lparr>tab_widgets := tabs, panel_widgets := ps5, current_tab := new_tab\<rparr>))))))))))"

definition action_move_up :: "QuestionApp \<Rightarrow> py_error + QuestionApp" where
  "action_move_up self =
     (case get_current_panel self of
        None \<Rightarrow> Inr self
      | Some panel \<Rightarrow>
          bind_err (move_up panel) (\<lambda>p'.
            Inr (self\<lparr>panel_widgets := (panel_widgets self)[nat (current_tab self) := p']\<rparr>)))"

definition action_move_down :: "QuestionApp \<Rightarrow> py_error + QuestionApp" where
  "action_move_down self =
     (case get_current_panel self of
        None \<Rightarrow> Inr self
      | Some panel \<Rightarrow>
          bind_err (move_down panel) (\<lambda>p'.
            Inr (self\<lparr>panel_widgets := (panel_widgets self)[nat (current_tab self) := p']\<rparr>)))"

definition action_next_tab :: "QuestionApp \<Rightarrow> py_error + QuestionApp" where
  "action_next_tab self =
     (if length (panel_widgets self) > 1
      then bind_err (py_mod (current_tab self + 1) (int (length (panel_widgets self))))
             (switch_tab self)
      else Inr self)"

definition action_prev_tab :: "QuestionApp \<Rightarrow> py_error + QuestionApp" where
  "action_prev_tab self =
     (if length (panel_widgets self) > 1
      then bind_err (py_mod (current_tab self - 1) (int (length (panel_widgets self))))
             (switch_tab self)
      else Inr self)"

text \<open>The loop of \<open>_do_submit\<close> over the panels, then the \<open>Answered\<close> message.\<close>

fun collect_answers :: "QuestionPanel list \<Rightarrow> py_error + (string \<times> string \<times> bool) list" where
  "collect_answers [] = Inr []"
| "collect_answers (panel # ps) =
     bind_err (get_answer panel) (\<lambda>(answer, is_other).
     bind_err (collect_answers ps) (\<lambda>rest.
       Inr ((question (question_data panel), answer, is_other) # rest)))"

definition do_submit :: "QuestionApp \<Rightarrow> py_error + QuestionApp" where
  "do_submit self =
     bind_err (collect_answers (panel_widgets self)) (\<lambda>answers.
       Inr (self\<lparr>posted := posted self @ [Answered answers]\<rparr>))"

definition action_submit :: "QuestionApp \<Rightarrow> py_error + QuestionApp" where
  "action_submit self = do_submit self"

definition on_input_submitted :: "QuestionApp \<Rightarrow> py_error + QuestionApp" where
  "on_input_submitted self = do_submit self"

definition action_cancel :: "QuestionApp \<Rightarrow> QuestionApp" where
  "action_cancel self = self\<lparr>posted := posted self @ [Cancelled]\<rparr>"

definition on_question_panel_cancel_requested :: "QuestionApp \<Rightarrow> QuestionApp" where
  "on_question_panel_cancel_requested self = self\<lparr>posted := posted self @ [Cancelled]\<rparr>"

subsection \<open>Sessions\<close>

text \<open>The commands that reach the controller before it submits or cancels: the four
  navigation actions, and the user editing the text input of the visible panel, which
  leaves the given text as its value.\<close>

datatype command = MoveUp | MoveDown | NextTab | PrevTab | Edit string

definition edit_input :: "QuestionApp \<Rightarrow> string \<Rightarrow> QuestionApp" where
  "edit_input self txt =
     (case get_current_panel self of
        None \<Rightarrow> self
      | Some panel \<Rightarrow>
          (case text_input panel of
             None \<Rightarrow> self
           | Some inp \<Rightarrow>
               self\<lparr>panel_widgets := (panel_widgets self)
                 [nat (current_tab self) :=
                    panel\<lparr>text_input := Some (inp\<lparr>input_value := txt\<rparr>)\<rparr>]\<rparr>))"

fun step :: "QuestionApp \<Rightarrow> command \<Rightarrow> py_error + QuestionApp" where
  "step self MoveUp = action_move_up self"
| "step self MoveDown = action_move_down self"
| "step self NextTab = action_next_tab self"
| "step self PrevTab = action_prev_tab self"
| "step self (Edit txt) = Inr (edit_input self txt)"

fun run :: "QuestionApp \<Rightarrow> command list \<Rightarrow> py_error + QuestionApp" where
  "run self [] = Inr self"
| "run self (c # cs) = bind_err (step self c) (\<lambda>self'. run self' cs)"

definition session :: "AskUserArgs \<Rightarrow> command list \<Rightarrow> py_error + QuestionApp" where
  "session a cs = bind_err (start a) (\<lambda>self. run self cs)"

text \<open>Panel \<open>i\<close> is visited by a run when it is the active tab at some moment of it.\<close>

fun visited :: "nat \<Rightarrow> QuestionApp \<Rightarrow> command list \<Rightarrow> bool" where
  "visited i self [] = (current_tab self = int i)"
| "visited i self (c # cs) =
     (current_tab self = int i \<or>
      (case step self c of Inl e \<Rightarrow> False | Inr self' \<Rightarrow> visited i self' cs))"

definition visited_in_session :: "nat \<Rightarrow> AskUserArgs \<Rightarrow> command list \<Rightarrow> bool" where
  "visited_in_session i a cs =
     (case start a of Inl e \<Rightarrow> False | Inr self \<Rightarrow> visited i self cs)"

text \<open>The commands that act on the selection or on the input of the active panel; the
  two tab commands only change which panel is shown.\<close>

fun alters :: "command \<Rightarrow> bool" where
  "alters MoveUp = True"
| "alters MoveDown = True"
| "alters (Edit t) = True"
| "alters NextTab = False"
| "alters PrevTab = False"

text \<open>Panel \<open>i\<close> is altered by a run when one of these commands is issued while it is
  the active tab. A panel that is only shown, or never shown, is not altered.\<close>

fun altered :: "nat \<Rightarrow> QuestionApp \<Rightarrow> command list \<Rightarrow> bool" where
  "altered i self [] = False"
| "altered i self (c # cs) =
     ((current_tab self = int i \<and> alters c) \<or>
      (case step self c of Inl e \<Rightarrow> False | Inr self' \<Rightarrow> altered i self' cs))"

definition altered_in_session :: "nat \<Rightarrow> AskUserArgs \<Rightarrow> command list \<Rightarrow> bool" where
  "altered_in_session i a cs =
     (case start a of Inl e \<Rightarrow> False | Inr self \<Rightarrow> altered i self cs)"

subsection \<open>Invariants\<close>

text \<open>What holds of a panel from its mount on: the option count is the number of
  choices plus one, the selection is in range, there is one option widget per choice,
  the children exist, the choices are those of the question, and \<open>is_other_mode\<close>
  follows the selection.\<close>

definition panel_ok :: "QuestionPanel \<Rightarrow> bool" where
  "panel_ok p =
     (panel_choices p = choices (question_data p)
      \<and> total_options p = int (length (panel_choices p)) + 1
      \<and> 0 \<le> selected_option p \<and> selected_option p < total_options p
      \<and> length (option_widgets p) = length (panel_choices p)
      \<and> text_input p \<noteq> None
      \<and> question_text p \<noteq> None
      \<and> is_other_mode p = (selected_option p = int (length (panel_choices p))))"

text \<open>Two panel states that differ in presentation only (classes, visibility, focus
  calls, rendered text).\<close>

definition same_core :: "QuestionPanel \<Rightarrow> QuestionPanel \<Rightarrow> bool" where
  "same_core p p' =
     (question_data p' = question_data p
      \<and> panel_choices p' = panel_choices p
      \<and> selected_option p' = selected_option p
      \<and> total_options p' = total_options p
      \<and> length (option_widgets p') = length (option_widgets p)
      \<and> text_input p' = text_input p
      \<and> (question_text p' = None) = (question_text p = None)
      \<and> is_other_mode p' = is_other_mode p)"

text \<open>A panel on which no option was moved and no text was entered.\<close>

definition pristine :: "QuestionPanel \<Rightarrow> bool" where
  "pristine p = (selected_option p = 0 \<and> other_text p = [])"

text \<open>What holds of the controller from its mount on.\<close>

definition app_ok :: "QuestionApp \<Rightarrow> bool" where
  "app_ok self =
     (list_all panel_ok (panel_widgets self)
      \<and> map question_data (panel_widgets self) = questions self
      \<and> (tab_widgets self = [] \<or> length (tab_widgets self) = length (panel_widgets self))
      \<and> 0 \<le> current_tab self
      \<and> (current_tab self < int (length (panel_widgets self))
           \<or> (panel_widgets self = [] \<and> current_tab self = 0)))"

text \<open>What a command leaves as it was: it keeps the invariant, the questions, the posted
  messages and the number of panels, and it changes no panel other than the one that
  was active before and the one that is active after.\<close>

definition step_post :: "QuestionApp \<Rightarrow> QuestionApp \<Rightarrow> bool" where
  "step_post s s' =
     (app_ok s'
      \<and> questions s' = questions s
      \<and> posted s' = posted s
      \<and> length (panel_widgets s') = length (panel_widgets s)
      \<and> (\<forall>j. int j \<noteq> current_tab s \<longrightarrow> int j \<noteq> current_tab s' \<longrightarrow>
               panel_widgets s' ! j = panel_widgets s ! j))"

section \<open>Properties of the mode registry\<close>

lemma dict_getitem_MODE_CONFIGS:
  "dict_getitem MODE_CONFIGS m = Inr (the (map_of MODE_CONFIGS m))"
  by (cases m) (simp_all add: dict_getitem_def MODE_CONFIGS_def)

lemma safety_values:
  "safety DEFAULT = Inr NEUTRAL" "safety PLAN = Inr SAFE" "safety AUTO_APPROVE = Inr YOLO"
  by (simp_all add: safety_def dict_getitem_def MODE_CONFIGS_def bind_err_def)

lemma auto_approve_values:
  "auto_approve DEFAULT = Inr False" "auto_approve PLAN = Inr True"
  "auto_approve AUTO_APPROVE = Inr True"
  by (simp_all add: auto_approve_def dict_getitem_def MODE_CONFIGS_def bind_err_def)

lemma config_overrides_values:
  "config_overrides DEFAULT = Inr []"
  "config_overrides PLAN = Inr [(''enabled_tools'', [''grep'', ''read_file'', ''todo''])]"
  "config_overrides AUTO_APPROVE = Inr []"
  by (simp_all add: config_overrides_def dict_getitem_def MODE_CONFIGS_def bind_err_def
      PLAN_MODE_TOOLS_def)

lemma next_mode_values:
  "next_mode AUTO_APPROVE = Inr PLAN" "next_mode PLAN = Inr DEFAULT"
  "next_mode DEFAULT = Inr AUTO_APPROVE"
  by (simp_all add: next_mode_def get_mode_order_def bind_err_def py_mod_def getitem_def)

text \<open>
  C5. \<open>next_mode\<close> follows the fixed cycle order \<open>[AUTO_APPROVE, PLAN, DEFAULT]\<close>, which
  is not the order in which the variants are declared: the successor of \<open>AUTO_APPROVE\<close>
  is \<open>PLAN\<close>, that of \<open>PLAN\<close> is \<open>DEFAULT\<close>, that of \<open>DEFAULT\<close> is \<open>AUTO_APPROVE\<close>, no
  call raises, and three applications lead from every mode back to itself.
\<close>

theorem next_mode_cycle:
  "get_mode_order = [AUTO_APPROVE, PLAN, DEFAULT]
   \<and> get_mode_order \<noteq> AgentMode_members
   \<and> next_mode AUTO_APPROVE = Inr PLAN
   \<and> next_mode PLAN = Inr DEFAULT
   \<and> next_mode DEFAULT = Inr AUTO_APPROVE
   \<and> (\<forall>m. bind_err (bind_err (next_mode m) next_mode) next_mode = Inr m)"
proof -
  have period: "bind_err (bind_err (next_mode m) next_mode) next_mode = Inr m" for m
    by (cases m) (simp_all add: next_mode_values bind_err_def)
  have "get_mode_order \<noteq> AgentMode_members"
    by (simp add: get_mode_order_def AgentMode_members_def)
  with period show ?thesis
    by (simp add: next_mode_values) (simp add: get_mode_order_def)
qed

subsection \<open>Parsing a mode\<close>

lemma lower_char_ascii:
  assumes "(of_char d :: nat) < 128"
  shows "(lower_char c = lower_char d) = same_letter c d"
proof -
  obtain m :: nat where m: "c = char_of m" "m < 256"
    by (metis char_of_char nat_of_char_less_256)
  obtain n :: nat where n: "d = char_of n" "n < 256"
    by (metis char_of_char nat_of_char_less_256)
  from assms n have n128: "n < 128"
    by simp
  show ?thesis
    using m(2) n(2) n128
    unfolding lower_char_def same_letter_def Let_def m(1) n(1)
    by auto
qed

lemma lower_eq_iff_casing:
  "list_all (\<lambda>d. (of_char d :: nat) < 128) n \<Longrightarrow> (lower s = lower n) = is_casing_of s n"
proof (induction n arbitrary: s)
  case Nil
  then show ?case by (simp add: lower_def is_casing_of_def)
next
  case (Cons d n)
  show ?case
  proof (cases s)
    case Nil
    then show ?thesis by (simp add: lower_def is_casing_of_def)
  next
    case (Cons c s')
    from Cons.prems have d: "(of_char d :: nat) < 128"
      and n: "list_all (\<lambda>d. (of_char d :: nat) < 128) n"
      by simp_all
    have "(lower s' = lower n) = is_casing_of s' n"
      using Cons.IH [OF n] .
    then show ?thesis
      using lower_char_ascii [OF d, of c]
      by (simp only: Cons lower_def is_casing_of_def list.map list.inject list_all2_Cons)
  qed
qed

lemma AgentMode_name_ascii: "list_all (\<lambda>d. (of_char d :: nat) < 128) (AgentMode_name m)"
  by (cases m) simp_all

lemma lower_value_iff_casing:
  "(lower s = AgentMode_value m) = is_casing_of s (AgentMode_name m)"
  unfolding AgentMode_value_def
  by (rule lower_eq_iff_casing [OF AgentMode_name_ascii])

lemma AgentMode_value_inj: "(AgentMode_value m = AgentMode_value m') = (m = m')"
  by (cases m; cases m') (simp_all add: AgentMode_value_def lower_def lower_char_def)

lemma AgentMode_call_iff:
  "(AgentMode_call v = Inr m) = (v = AgentMode_value m)"
proof -
  have "AgentMode_call (AgentMode_value m') = Inr m'" for m'
    by (cases m') (simp_all add: AgentMode_call_def AgentMode_members_def AgentMode_value_inj)
  moreover have "AgentMode_call v = Inr m \<Longrightarrow> v = AgentMode_value m"
    by (auto simp: AgentMode_call_def AgentMode_members_def split: if_splits)
  ultimately show ?thesis by blast
qed

lemma AgentMode_call_error: "AgentMode_call v = Inl e \<Longrightarrow> e = ValueError"
  by (auto simp: AgentMode_call_def split: option.splits)

lemma from_string_cases:
  "from_string s = (case AgentMode_call (lower s) of Inr m \<Rightarrow> Inr (Some m) | Inl e \<Rightarrow> Inr None)"
proof (cases "AgentMode_call (lower s)")
  case (Inl e)
  then show ?thesis
    using AgentMode_call_error [OF Inl] by (simp add: from_string_def)
next
  case (Inr m)
  then show ?thesis by (simp add: from_string_def)
qed

text \<open>
  C7. Parsing a mode is total and case-insensitive: \<open>from_string\<close> never raises; it
  returns a variant exactly for the strings that are a casing of that variant's name,
  and returns \<open>None\<close> exactly for the strings that are a casing of no variant name. In
  particular \<open>plan\<close> and \<open>PLAN\<close> both give \<open>PLAN\<close>, and \<open>bogus\<close> gives \<open>None\<close>.
\<close>

theorem from_string_total_case_insensitive:
  "(\<exists>r. from_string s = Inr r)
   \<and> (from_string s = Inr (Some m)) = is_casing_of s (AgentMode_name m)
   \<and> (from_string s = Inr None) = (\<forall>m'. \<not> is_casing_of s (AgentMode_name m'))
   \<and> from_string ''plan'' = Inr (Some PLAN)
   \<and> from_string ''PLAN'' = Inr (Some PLAN)
   \<and> from_string ''bogus'' = Inr None"
proof -
  have total: "\<exists>r. from_string s = Inr r"
    by (simp add: from_string_cases split: sum.splits)
  have some: "(from_string s' = Inr (Some m')) = is_casing_of s' (AgentMode_name m')" for s' m'
  proof -
    have "(from_string s' = Inr (Some m')) = (AgentMode_call (lower s') = Inr m')"
      by (cases "AgentMode_call (lower s')") (simp_all add: from_string_cases)
    then show ?thesis
      by (simp add: AgentMode_call_iff lower_value_iff_casing)
  qed
  have none: "(from_string s = Inr None) = (\<forall>m'. \<not> is_casing_of s (AgentMode_name m'))"
  proof
    assume n: "from_string s = Inr None"
    show "\<forall>m'. \<not> is_casing_of s (AgentMode_name m')"
    proof
      fix m'
      show "\<not> is_casing_of s (AgentMode_name m')"
        using n some [of s m'] by simp
    qed
  next
    assume a: "\<forall>m'. \<not> is_casing_of s (AgentMode_name m')"
    from total obtain r where r: "from_string s = Inr r" by blast
    show "from_string s = Inr None"
    proof (cases r)
      case None
      with r show ?thesis by simp
    next
      case (Some m')
      with r a some [of s m'] show ?thesis by simp
    qed
  qed
  have ex1: "from_string ''plan'' = Inr (Some PLAN)"
    by (simp add: some is_casing_of_def same_letter_def)
  have ex2: "from_string ''PLAN'' = Inr (Some PLAN)"
    by (simp add: some is_casing_of_def same_letter_def)
  have ex3: "from_string ''bogus'' = Inr None"
    by (simp add: from_string_def AgentMode_call_def AgentMode_members_def AgentMode_value_def
        lower_def lower_char_def)
  from total some [of s m] none ex1 ex2 ex3 show ?thesis by blast
qed

theorem from_string_total_case_insensitive_witness:
  "from_string ''Auto_APPROVE'' = Inr (Some AUTO_APPROVE)
   \<and> from_string ''auto approve'' = Inr None"
proof -
  have c: "is_casing_of ''Auto_APPROVE'' (AgentMode_name AUTO_APPROVE)"
    by (simp add: is_casing_of_def same_letter_def)
  have n: "\<forall>m'. \<not> is_casing_of ''auto approve'' (AgentMode_name m')"
  proof
    fix m'
    show "\<not> is_casing_of ''auto approve'' (AgentMode_name m')"
      by (cases m') (simp_all add: is_casing_of_def same_letter_def)
  qed
  show ?thesis
    using c n from_string_total_case_insensitive [of "''Auto_APPROVE''" AUTO_APPROVE]
      from_string_total_case_insensitive [of "''auto approve''" DEFAULT]
    by blast
qed

subsection \<open>The registry and the indicator\<close>

text \<open>
  C9. The registry gives every variant exactly one configuration: the lookup
  \<open>MODE_CONFIGS[m]\<close> never raises, and the table has one entry for each of the three
  variants. The overrides of \<open>PLAN\<close> are exactly the entry \<open>enabled_tools\<close> with the
  list \<open>grep\<close>, \<open>read_file\<close>, \<open>todo\<close>; those of \<open>DEFAULT\<close> and \<open>AUTO_APPROVE\<close> are empty.
\<close>

theorem mode_registry_total:
  "(\<forall>m. \<exists>c. dict_getitem MODE_CONFIGS m = Inr c)
   \<and> distinct (map fst MODE_CONFIGS)
   \<and> length MODE_CONFIGS = 3
   \<and> set (map fst MODE_CONFIGS) = UNIV
   \<and> config_overrides PLAN = Inr [(''enabled_tools'', [''grep'', ''read_file'', ''todo''])]
   \<and> PLAN_MODE_TOOLS = [''grep'', ''read_file'', ''todo'']
   \<and> config_overrides DEFAULT = Inr []
   \<and> config_overrides AUTO_APPROVE = Inr []"
proof -
  have "\<forall>m. \<exists>c. dict_getitem MODE_CONFIGS m = Inr c"
    using dict_getitem_MODE_CONFIGS by blast
  moreover have "distinct (map fst MODE_CONFIGS)" "length MODE_CONFIGS = 3"
    by (simp_all add: MODE_CONFIGS_def)
  moreover have "set (map fst MODE_CONFIGS) = UNIV"
  proof -
    have "m \<in> set (map fst MODE_CONFIGS)" for m
      by (cases m) (simp_all add: MODE_CONFIGS_def)
    then show ?thesis by blast
  qed
  ultimately show ?thesis
    by (simp add: config_overrides_values PLAN_MODE_TOOLS_def)
qed

lemma ModeIndicator_init_mode:
  "ModeIndicator_init a =
     Inr ind \<Longrightarrow> mode ind = (case a of None \<Rightarrow> AUTO_APPROVE | Some m \<Rightarrow> m)"
  by (auto simp: ModeIndicator_init_def ModeIndicator_update_display_def bind_err_def Let_def
      split: sum.splits option.splits)

lemma ModeIndicator_init_returns: "\<exists>ind. ModeIndicator_init a = Inr ind"
proof -
  have d: "\<exists>n. display_name m = Inr n" for m
    by (cases m) (simp_all add: display_name_def dict_getitem_def MODE_CONFIGS_def bind_err_def)
  have s: "\<exists>c. bind_err (safety m) (dict_getitem SAFETY_CLASSES) = Inr c" for m
    by (cases m) (simp_all add: safety_values bind_err_def dict_getitem_def SAFETY_CLASSES_def)
  have "\<exists>ind. ModeIndicator_update_display i = Inr ind" for i
    using d [of "mode i"] s [of "mode i"]
    by (auto simp: ModeIndicator_update_display_def bind_err_def Let_def split: sum.splits)
  then show ?thesis
    by (simp add: ModeIndicator_init_def Let_def)
qed

text \<open>
  C10. A \<open>ModeIndicator\<close> constructed without a mode argument is in mode
  \<open>AUTO_APPROVE\<close>, not \<open>DEFAULT\<close>: the mode that approves automatically, the only one
  of safety tier \<open>YOLO\<close>, and one without configuration overrides.
\<close>

theorem mode_indicator_default_mode:
  "(\<exists>ind. ModeIndicator_init None = Inr ind \<and> mode ind = AUTO_APPROVE \<and> mode ind \<noteq> DEFAULT)
   \<and> auto_approve AUTO_APPROVE = Inr True
   \<and> safety AUTO_APPROVE = Inr YOLO
   \<and> filter (\<lambda>m. safety m = Inr YOLO) AgentMode_members = [AUTO_APPROVE]
   \<and> config_overrides AUTO_APPROVE = Inr []"
proof -
  obtain ind where ind: "ModeIndicator_init None = Inr ind"
    using ModeIndicator_init_returns by blast
  from ModeIndicator_init_mode [OF ind] have "mode ind = AUTO_APPROVE"
    by simp
  with ind have "\<exists>ind. ModeIndicator_init None = Inr ind \<and> mode ind = AUTO_APPROVE
      \<and> mode ind \<noteq> DEFAULT"
    by simp
  then show ?thesis
    by (simp add: auto_approve_values safety_values config_overrides_values AgentMode_members_def)
qed

section \<open>Properties of a question panel\<close>

subsection \<open>Stripping\<close>

lemma lstrip_suffix: "\<exists>a. s = a @ lstrip s \<and> list_all isspace a"
proof -
  have "s = takeWhile isspace s @ lstrip s"
    by (simp add: lstrip_def)
  moreover have "list_all isspace (takeWhile isspace s)"
    by (simp add: list_all_iff) (meson set_takeWhileD)
  ultimately show ?thesis by blast
qed

lemma rstrip_prefix: "\<exists>b. s = rstrip s @ b \<and> list_all isspace b"
proof -
  have "rev s = takeWhile isspace (rev s) @ dropWhile isspace (rev s)"
    by simp
  then have "s = rev (dropWhile isspace (rev s)) @ rev (takeWhile isspace (rev s))"
    by (metis rev_append rev_rev_ident)
  moreover have "list_all isspace (rev (takeWhile isspace (rev s)))"
    by (simp add: list_all_iff) (meson set_takeWhileD)
  ultimately show ?thesis
    unfolding rstrip_def by blast
qed

lemma strip_middle:
  "\<exists>a b. s = a @ strip s @ b \<and> list_all isspace a \<and> list_all isspace b"
proof -
  obtain a where a: "s = a @ lstrip s" "list_all isspace a"
    using lstrip_suffix by blast
  obtain b where b: "lstrip s = rstrip (lstrip s) @ b" "list_all isspace b"
    using rstrip_prefix by blast
  have "s = a @ strip s @ b"
    using a(1) b(1) by (simp add: strip_def)
  with a(2) b(2) show ?thesis by blast
qed

lemma lstrip_hd: "lstrip s \<noteq> [] \<Longrightarrow> \<not> isspace (hd (lstrip s))"
  unfolding lstrip_def by (rule hd_dropWhile)

lemma rstrip_last: "rstrip s \<noteq> [] \<Longrightarrow> \<not> isspace (last (rstrip s))"
  unfolding rstrip_def
  by (metis hd_dropWhile last_rev rev_is_Nil_conv)

lemma rstrip_hd: "rstrip s \<noteq> [] \<Longrightarrow> hd (rstrip s) = hd s"
proof -
  obtain b where b: "s = rstrip s @ b"
    using rstrip_prefix by blast
  assume "rstrip s \<noteq> []"
  then show ?thesis
    using b by (metis hd_append2)
qed

lemma strip_ends:
  "strip s = [] \<or> (\<not> isspace (hd (strip s)) \<and> \<not> isspace (last (strip s)))"
proof (cases "strip s = []")
  case True
  then show ?thesis by simp
next
  case False
  then have ne: "rstrip (lstrip s) \<noteq> []"
    by (simp add: strip_def)
  then have "lstrip s \<noteq> []"
    by (auto simp: rstrip_def)
  then have "\<not> isspace (hd (lstrip s))"
    by (rule lstrip_hd)
  then have "\<not> isspace (hd (strip s))"
    using rstrip_hd [OF ne] by (simp add: strip_def)
  moreover have "\<not> isspace (last (strip s))"
    using rstrip_last [OF ne] by (simp add: strip_def)
  ultimately show ?thesis by blast
qed

subsection \<open>The answer of a panel\<close>

lemma getitem_in_range:
  "0 \<le> i \<Longrightarrow> i < int (length xs) \<Longrightarrow> getitem xs i = Inr (xs ! nat i)"
  by (simp add: getitem_def)

text \<open>
  C2. For a panel whose selection is not negative: when \<open>selected_option\<close> is below
  the number of choices, \<open>get_answer\<close> returns the label of the selected choice with
  \<open>False\<close>, and the result does not depend on the descriptions of the choices; when
  \<open>selected_option\<close> equals the number of choices, it returns the stripped free text with
  \<open>True\<close>, where the stripped text is the free text without a leading and a trailing
  run of whitespace and neither begins nor ends with whitespace.
\<close>

theorem get_answer_result:
  assumes "0 \<le> selected_option p"
  shows "(selected_option p < int (length (panel_choices p)) \<longrightarrow>
           get_answer p = Inr (label (panel_choices p ! nat (selected_option p)), False)
           \<and> (\<forall>f. get_answer
                  (p\<lparr>panel_choices :=
                       map (\<lambda>c. c\<lparr>choice_description := f c\<rparr>) (panel_choices p)\<rparr>)
                = get_answer p))
       \<and> (selected_option p = int (length (panel_choices p)) \<longrightarrow>
           get_answer p = Inr (strip (other_text p), True)
           \<and> (\<exists>a b. other_text p = a @ strip (other_text p) @ b
                  \<and> list_all isspace a \<and> list_all isspace b)
           \<and> (strip (other_text p) = []
                \<or> (\<not> isspace (hd (strip (other_text p)))
                    \<and> \<not> isspace (last (strip (other_text p))))))"
proof (intro conjI impI allI)
  assume lt: "selected_option p < int (length (panel_choices p))"
  show "get_answer p = Inr (label (panel_choices p ! nat (selected_option p)), False)"
    using assms lt by (simp add: get_answer_def getitem_in_range bind_err_def)
  fix f
  show "get_answer (p\<lparr>panel_choices := map (\<lambda>c. c\<lparr>choice_description := f c\<rparr>) (panel_choices p)\<rparr>)
        = get_answer p"
    using assms lt by (simp add: get_answer_def getitem_in_range bind_err_def)
next
  assume eq: "selected_option p = int (length (panel_choices p))"
  show "get_answer p = Inr (strip (other_text p), True)"
    using eq
    by (simp add: get_answer_def other_text_def strip_def lstrip_def rstrip_def
        split: option.splits)
  show "\<exists>a b. other_text p = a @ strip (other_text p) @ b
          \<and> list_all isspace a \<and> list_all isspace b"
    by (rule strip_middle)
  show "strip (other_text p) = []
        \<or> (\<not> isspace (hd (strip (other_text p))) \<and> \<not> isspace (last (strip (other_text p))))"
    by (rule strip_ends)
qed

theorem get_answer_result_witness:
  "get_answer
     ((QuestionPanel_compose
        (QuestionPanel_init
          \<lparr>question = ''Q'',
           choices = [\<lparr>label = ''yes'', choice_description = Some ''sure''\<rparr>]\<rparr> 0 1))
      \<lparr>selected_option := 0\<rparr>) = Inr (''yes'', False)
   \<and> get_answer
     ((QuestionPanel_compose
        (QuestionPanel_init
          \<lparr>question = ''Q'',
           choices = [\<lparr>label = ''yes'', choice_description = Some ''sure''\<rparr>]\<rparr> 0 1))
      \<lparr>selected_option := 1,
        text_input := Some \<lparr>placeholder = ''_'', input_classes = [], input_value = ''  hi  ''\<rparr>\<rparr>)
     = Inr (''hi'', True)"
proof -
  let ?q = "\<lparr>question = ''Q'', choices = [\<lparr>label = ''yes'', choice_description = Some ''sure''\<rparr>]\<rparr>"
  let ?p = "QuestionPanel_compose (QuestionPanel_init ?q 0 1)"
  let ?pa = "?p\<lparr>selected_option := 0\<rparr>"
  let ?pb = "?p\<lparr>selected_option := 1,
        text_input := Some \<lparr>placeholder = ''_'', input_classes = [], input_value = ''  hi  ''\<rparr>\<rparr>"
  have a: "0 \<le> selected_option ?pa" "selected_option ?pa < int (length (panel_choices ?pa))"
    by (simp_all add: QuestionPanel_compose_def QuestionPanel_init_def Let_def)
  have b: "0 \<le> selected_option ?pb" "selected_option ?pb = int (length (panel_choices ?pb))"
    by (simp_all add: QuestionPanel_compose_def QuestionPanel_init_def Let_def)
  have l: "label (panel_choices ?pa ! nat (selected_option ?pa)) = ''yes''"
    by (simp add: QuestionPanel_compose_def QuestionPanel_init_def Let_def)
  have s: "strip (other_text ?pb) = ''hi''"
    by (simp add: other_text_def strip_def lstrip_def rstrip_def isspace_def)
  from get_answer_result [OF a(1)] a(2) l
  have "get_answer ?pa = Inr (''yes'', False)"
    by simp
  moreover from get_answer_result [OF b(1)] b(2) s
  have "get_answer ?pb = Inr (''hi'', True)"
    by simp
  ultimately show ?thesis by blast
qed

subsection \<open>Moving the selection\<close>

lemma update_option_widgets_returns:
  "idx + length ws \<le> length chs \<Longrightarrow>
     \<exists>ws'. update_option_widgets chs sel idx ws = Inr ws' \<and> length ws' = length ws"
proof (induction ws arbitrary: idx)
  case Nil
  then show ?case by simp
next
  case (Cons w ws)
  then have "Suc idx + length ws \<le> length chs"
    by simp
  from Cons.IH [OF this] obtain ws' where
    ws': "update_option_widgets chs sel (Suc idx) ws = Inr ws'" "length ws' = length ws"
    by blast
  have g: "getitem chs (int idx) = Inr (chs ! idx)"
    using Cons.prems by (simp add: getitem_def)
  show ?case
    using ws' g by (simp add: bind_err_def Let_def)
qed

lemma update_options_returns:
  assumes "length (option_widgets p) \<le> length (panel_choices p)"
  shows "\<exists>p'. update_options p = Inr p'
           \<and> question_data p' = question_data p
           \<and> panel_choices p' = panel_choices p
           \<and> selected_option p' = selected_option p
           \<and> total_options p' = total_options p
           \<and> length (option_widgets p') = length (option_widgets p)
           \<and> text_input p' = text_input p
           \<and> question_text p' = question_text p
           \<and> display p' = display p
           \<and> is_other_mode p' =
               (if text_input p = None then is_other_mode p
                else selected_option p = int (length (panel_choices p)))"
proof -
  from assms have "0 + length (option_widgets p) \<le> length (panel_choices p)"
    by simp
  from update_option_widgets_returns [OF this]
  obtain ws where ws:
    "update_option_widgets (panel_choices p) (selected_option p) 0 (option_widgets p) = Inr ws"
    "length ws = length (option_widgets p)"
    by blast
  show ?thesis
    using ws
    by (auto simp: update_options_def bind_err_def Let_def split: option.splits)
qed

lemma move_down_returns:
  assumes "total_options p \<noteq> 0" "length (option_widgets p) \<le> length (panel_choices p)"
  shows "\<exists>p'. move_down p = Inr p'
           \<and> selected_option p' = (selected_option p + 1) mod total_options p
           \<and> question_data p' = question_data p
           \<and> panel_choices p' = panel_choices p
           \<and> total_options p' = total_options p
           \<and> length (option_widgets p') = length (option_widgets p)
           \<and> text_input p' = text_input p
           \<and> question_text p' = question_text p
           \<and> display p' = display p
           \<and> is_other_mode p' =
               (if text_input p = None then is_other_mode p
                else (selected_option p + 1) mod total_options p = int (length (panel_choices p)))"
proof -
  let ?q = "p\<lparr>selected_option := (selected_option p + 1) mod total_options p\<rparr>"
  have "length (option_widgets ?q) \<le> length (panel_choices ?q)"
    using assms(2) by simp
  from update_options_returns [OF this] obtain p' where "update_options ?q = Inr p'"
    and "question_data p' = question_data ?q"
    and "panel_choices p' = panel_choices ?q"
    and "selected_option p' = selected_option ?q"
    and "total_options p' = total_options ?q"
    and "length (option_widgets p') = length (option_widgets ?q)"
    and "text_input p' = text_input ?q"
    and "question_text p' = question_text ?q"
    and "display p' = display ?q"
    and "is_other_mode p' =
               (if text_input ?q = None then is_other_mode ?q
                else selected_option ?q = int (length (panel_choices ?q)))"
    by blast
  then show ?thesis
    using assms(1) by (simp add: move_down_def py_mod_def bind_err_def)
qed

lemma move_up_returns:
  assumes "total_options p \<noteq> 0" "length (option_widgets p) \<le> length (panel_choices p)"
  shows "\<exists>p'. move_up p = Inr p'
           \<and> selected_option p' = (selected_option p - 1) mod total_options p
           \<and> question_data p' = question_data p
           \<and> panel_choices p' = panel_choices p
           \<and> total_options p' = total_options p
           \<and> length (option_widgets p') = length (option_widgets p)
           \<and> text_input p' = text_input p
           \<and> question_text p' = question_text p
           \<and> display p' = display p
           \<and> is_other_mode p' =
               (if text_input p = None then is_other_mode p
                else (selected_option p - 1) mod total_options p = int (length (panel_choices p)))"
proof -
  let ?q = "p\<lparr>selected_option := (selected_option p - 1) mod total_options p\<rparr>"
  have "length (option_widgets ?q) \<le> length (panel_choices ?q)"
    using assms(2) by simp
  from update_options_returns [OF this] obtain p' where "update_options ?q = Inr p'"
    and "question_data p' = question_data ?q"
    and "panel_choices p' = panel_choices ?q"
    and "selected_option p' = selected_option ?q"
    and "total_options p' = total_options ?q"
    and "length (option_widgets p') = length (option_widgets ?q)"
    and "text_input p' = text_input ?q"
    and "question_text p' = question_text ?q"
    and "display p' = display ?q"
    and "is_other_mode p' =
               (if text_input ?q = None then is_other_mode ?q
                else selected_option ?q = int (length (panel_choices ?q)))"
    by blast
  then show ?thesis
    using assms(1) by (simp add: move_up_def py_mod_def bind_err_def)
qed

lemma repeat_move_down:
  assumes "0 < total_options p" "length (option_widgets p) \<le> length (panel_choices p)"
  shows "\<exists>p'. repeat_call move_down (Suc n) p = Inr p'
           \<and> selected_option p' = (selected_option p + int (Suc n)) mod total_options p"
  using assms
proof (induction n arbitrary: p)
  case 0
  from move_down_returns [OF _ 0(2)] 0(1) show ?case
    by (auto simp: bind_err_def)
next
  case (Suc n)
  from move_down_returns [OF _ Suc.prems(2)] Suc.prems(1)
  obtain p1 where p1: "move_down p = Inr p1"
    "selected_option p1 = (selected_option p + 1) mod total_options p"
    "total_options p1 = total_options p"
    "length (option_widgets p1) = length (option_widgets p)"
    "panel_choices p1 = panel_choices p"
    by auto
  have "0 < total_options p1" "length (option_widgets p1) \<le> length (panel_choices p1)"
    using p1 Suc.prems by simp_all
  from Suc.IH [OF this] obtain p' where p': "repeat_call move_down (Suc n) p1 = Inr p'"
    "selected_option p' = (selected_option p1 + int (Suc n)) mod total_options p1"
    by blast
  have "(selected_option p1 + int (Suc n)) mod total_options p1
        = (selected_option p + int (Suc (Suc n))) mod total_options p"
    unfolding p1(2) p1(3) by (simp add: mod_add_left_eq add.assoc)
  with p' p1(1) show ?case
    by (simp add: bind_err_def)
qed

lemma repeat_move_up:
  assumes "0 < total_options p" "length (option_widgets p) \<le> length (panel_choices p)"
  shows "\<exists>p'. repeat_call move_up (Suc n) p = Inr p'
           \<and> selected_option p' = (selected_option p - int (Suc n)) mod total_options p"
  using assms
proof (induction n arbitrary: p)
  case 0
  from move_up_returns [OF _ 0(2)] 0(1) show ?case
    by (auto simp: bind_err_def)
next
  case (Suc n)
  from move_up_returns [OF _ Suc.prems(2)] Suc.prems(1)
  obtain p1 where p1: "move_up p = Inr p1"
    "selected_option p1 = (selected_option p - 1) mod total_options p"
    "total_options p1 = total_options p"
    "length (option_widgets p1) = length (option_widgets p)"
    "panel_choices p1 = panel_choices p"
    by auto
  have "0 < total_options p1" "length (option_widgets p1) \<le> length (panel_choices p1)"
    using p1 Suc.prems by simp_all
  from Suc.IH [OF this] obtain p' where p': "repeat_call move_up (Suc n) p1 = Inr p'"
    "selected_option p' = (selected_option p1 - int (Suc n)) mod total_options p1"
    by blast
  have "(selected_option p1 - int (Suc n)) mod total_options p1
        = (selected_option p - int (Suc (Suc n))) mod total_options p"
    unfolding p1(2) p1(3) by (simp add: mod_diff_left_eq algebra_simps)
  with p' p1(1) show ?case
    by (simp add: bind_err_def)
qed

lemma repeat_move_any:
  assumes "0 < total_options p" "length (option_widgets p) \<le> length (panel_choices p)"
    and "0 \<le> selected_option p" "selected_option p < total_options p"
  shows "\<exists>p'. repeat_call move_down n p = Inr p'
           \<and> selected_option p' = (selected_option p + int n) mod total_options p"
    and "\<exists>p'. repeat_call move_up n p = Inr p'
           \<and> selected_option p' = (selected_option p - int n) mod total_options p"
proof -
  show "\<exists>p'. repeat_call move_down n p = Inr p'
           \<and> selected_option p' = (selected_option p + int n) mod total_options p"
  proof (cases n)
    case 0
    then show ?thesis using assms(3,4) by simp
  next
    case (Suc m)
    then show ?thesis using repeat_move_down [OF assms(1,2), of m] by simp
  qed
  show "\<exists>p'. repeat_call move_up n p = Inr p'
           \<and> selected_option p' = (selected_option p - int n) mod total_options p"
  proof (cases n)
    case 0
    then show ?thesis using assms(3,4) by simp
  next
    case (Suc m)
    then show ?thesis using repeat_move_up [OF assms(1,2), of m] by simp
  qed
qed

text \<open>
  C4. For a panel with \<open>total_options = k > 0\<close>, no more option widgets than choices,
  and a selection in \<open>[0, k)\<close>: \<open>n\<close> calls of \<open>move_down\<close> return and leave
  \<open>selected_option\<close> at \<open>(start + n) mod k\<close>, \<open>n\<close> calls of \<open>move_up\<close> return and leave it
  at \<open>(start - n) mod k\<close>; both values lie in \<open>[0, k)\<close>, and for \<open>k = 1\<close> (a question
  without choices) both are 0.
\<close>

theorem move_wraps_modulo:
  assumes "total_options p = k" "0 < k"
    and "length (option_widgets p) \<le> length (panel_choices p)"
    and "0 \<le> selected_option p" "selected_option p < k"
  shows "(\<exists>p'. repeat_call move_down n p = Inr p'
            \<and> selected_option p' = (selected_option p + int n) mod k
            \<and> 0 \<le> selected_option p' \<and> selected_option p' < k
            \<and> (k = 1 \<longrightarrow> selected_option p' = 0))
       \<and> (\<exists>p'. repeat_call move_up n p = Inr p'
            \<and> selected_option p' = (selected_option p - int n) mod k
            \<and> 0 \<le> selected_option p' \<and> selected_option p' < k
            \<and> (k = 1 \<longrightarrow> selected_option p' = 0))"
proof -
  have pos: "0 < total_options p" and lt: "selected_option p < total_options p"
    using assms by simp_all
  from repeat_move_any(1) [OF pos assms(3,4) lt, of n]
  obtain d where d: "repeat_call move_down n p = Inr d"
    "selected_option d = (selected_option p + int n) mod k"
    using assms(1) by auto
  from repeat_move_any(2) [OF pos assms(3,4) lt, of n]
  obtain u where u: "repeat_call move_up n p = Inr u"
    "selected_option u = (selected_option p - int n) mod k"
    using assms(1) by auto
  have "0 \<le> selected_option d" "selected_option d < k" "k = 1 \<longrightarrow> selected_option d = 0"
    using d(2) assms(2) by simp_all
  moreover have "0 \<le> selected_option u" "selected_option u < k" "k = 1 \<longrightarrow> selected_option u = 0"
    using u(2) assms(2) by simp_all
  ultimately show ?thesis
    using d u by blast
qed

theorem move_wraps_modulo_witness:
  "(\<exists>p'. repeat_call move_down 4
            (QuestionPanel_compose
              (QuestionPanel_init
                \<lparr>question = ''Q'',
                 choices = [\<lparr>label = ''yes'', choice_description = None\<rparr>,
                            \<lparr>label = ''no'', choice_description = None\<rparr>]\<rparr> 0 2)) = Inr p'
          \<and> selected_option p' = 1)
   \<and> (\<exists>p'. repeat_call move_up 4
            (QuestionPanel_compose
              (QuestionPanel_init
                \<lparr>question = ''Q'',
                 choices = [\<lparr>label = ''yes'', choice_description = None\<rparr>,
                            \<lparr>label = ''no'', choice_description = None\<rparr>]\<rparr> 0 2)) = Inr p'
          \<and> selected_option p' = 2)
   \<and> (\<exists>p'. repeat_call move_down 1
            (QuestionPanel_compose (QuestionPanel_init \<lparr>question = ''Q'', choices = []\<rparr> 0 0))
          = Inr p'
          \<and> selected_option p' = 0)
   \<and> (\<exists>p'. repeat_call move_up 1
            (QuestionPanel_compose (QuestionPanel_init \<lparr>question = ''Q'', choices = []\<rparr> 0 0))
          = Inr p'
          \<and> selected_option p' = 0)"
proof -
  let ?two = "QuestionPanel_compose
              (QuestionPanel_init
                \<lparr>question = ''Q'',
                 choices = [\<lparr>label = ''yes'', choice_description = None\<rparr>,
                            \<lparr>label = ''no'', choice_description = None\<rparr>]\<rparr> 0 2)"
  let ?none = "QuestionPanel_compose (QuestionPanel_init \<lparr>question = ''Q'', choices = []\<rparr> 0 0)"
  have two: "total_options ?two = 3" "(0::int) < 3"
    "length (option_widgets ?two) \<le> length (panel_choices ?two)"
    "0 \<le> selected_option ?two" "selected_option ?two < 3" "selected_option ?two = 0"
    by (simp_all add: QuestionPanel_compose_def QuestionPanel_init_def Let_def)
  have none: "total_options ?none = 1" "(0::int) < 1"
    "length (option_widgets ?none) \<le> length (panel_choices ?none)"
    "0 \<le> selected_option ?none" "selected_option ?none < 1"
    by (simp_all add: QuestionPanel_compose_def QuestionPanel_init_def Let_def)
  have m: "(0 + int 4) mod 3 = (1::int)" "(0 - int 4) mod 3 = (2::int)"
    by simp_all
  show ?thesis
    using move_wraps_modulo [OF two(1-5), of 4] move_wraps_modulo [OF none, of 1] two(6) m
    by auto
qed

section \<open>Properties of a session\<close>

subsection \<open>Changes of presentation\<close>

lemma same_core_refl: "same_core p p"
  by (simp add: same_core_def)

lemma same_core_trans: "same_core p q \<Longrightarrow> same_core q r \<Longrightarrow> same_core p r"
  by (simp add: same_core_def)

lemma same_core_panel_ok: "same_core p p' \<Longrightarrow> panel_ok p \<Longrightarrow> panel_ok p'"
  by (auto simp: same_core_def panel_ok_def)

lemma same_core_pristine: "same_core p p' \<Longrightarrow> pristine p' = pristine p"
  by (simp add: same_core_def pristine_def other_text_def)

lemma same_core_get_answer: "same_core p p' \<Longrightarrow> get_answer p' = get_answer p"
  by (simp add: same_core_def get_answer_def)

lemma focus_input_same_core: "same_core p (focus_input p)"
  by (simp add: same_core_def focus_input_def)

lemma display_same_core: "same_core p (p\<lparr>display := b\<rparr>)"
  by (simp add: same_core_def)

lemma change_classes_same_core:
  "panel_ok p \<Longrightarrow> \<exists>p'. change_question_text_classes f p = Inr p' \<and> same_core p p'"
  by (auto simp: panel_ok_def change_question_text_classes_def query_question_text_def
      bind_err_def same_core_def)

lemma list_all2_same_core_refl: "list_all2 same_core xs xs"
  by (simp add: list_all2_refl same_core_refl)

lemma list_all2_same_core_trans:
  "list_all2 same_core xs ys \<Longrightarrow> list_all2 same_core ys zs \<Longrightarrow> list_all2 same_core xs zs"
  using list_all2_trans [of same_core same_core same_core xs ys zs] same_core_trans
  by blast

lemma list_all2_same_core_ok:
  "list_all2 same_core xs ys \<Longrightarrow> list_all panel_ok xs \<Longrightarrow> list_all panel_ok ys"
  by (induction xs ys rule: list_all2_induct) (auto intro: same_core_panel_ok)

lemma list_all2_same_core_data:
  "list_all2 same_core xs ys \<Longrightarrow> map question_data ys = map question_data xs"
  by (induction xs ys rule: list_all2_induct) (auto simp: same_core_def)

lemma list_all2_same_core_update:
  assumes "k < length xs" "same_core (xs ! k) y"
  shows "list_all2 same_core xs (xs[k := y])"
  unfolding list_all2_conv_all_nth
proof (intro conjI allI impI)
  show "length xs = length (xs[k := y])" by simp
  fix i
  assume "i < length xs"
  then show "same_core (xs ! i) (xs[k := y] ! i)"
    using assms by (cases "i = k") (simp_all add: same_core_refl)
qed

subsection \<open>Calls on a list element\<close>

lemma update_at_in_range:
  "0 \<le> i \<Longrightarrow> i < int (length xs) \<Longrightarrow> f (xs ! nat i) = Inr y \<Longrightarrow>
     update_at xs i f = Inr (xs[nat i := y])"
  by (simp add: update_at_def getitem_def bind_err_def)

lemma update_at_cosmetic:
  assumes ok: "list_all panel_ok xs" and i: "0 \<le> i" "i < int (length xs)"
    and f: "\<And>x. panel_ok x \<Longrightarrow> \<exists>y. f x = Inr y \<and> same_core x y"
  shows "\<exists>ys. update_at xs i f = Inr ys \<and> list_all2 same_core xs ys
           \<and> (\<forall>j. j \<noteq> nat i \<longrightarrow> ys ! j = xs ! j)"
proof -
  have k: "nat i < length xs"
    using i by simp
  then have "panel_ok (xs ! nat i)"
    using ok by (simp add: list_all_length)
  from f [OF this] obtain y where y: "f (xs ! nat i) = Inr y" "same_core (xs ! nat i) y"
    by blast
  have "update_at xs i f = Inr (xs[nat i := y])"
    using i y(1) by (rule update_at_in_range)
  moreover have "list_all2 same_core xs (xs[nat i := y])"
    using k y(2) by (rule list_all2_same_core_update)
  ultimately show ?thesis by simp
qed

subsection \<open>Mounting\<close>

lemma QuestionPanel_init_fields:
  "question_data (QuestionPanel_init q i mc) = q"
  "panel_choices (QuestionPanel_init q i mc) = choices q"
  "total_options (QuestionPanel_init q i mc) = int (length (choices q)) + 1"
  "selected_option (QuestionPanel_init q i mc) = 0"
  "option_widgets (QuestionPanel_init q i mc) = []"
  "text_input (QuestionPanel_init q i mc) = None"
  "is_other_mode (QuestionPanel_init q i mc) = False"
  by (simp_all add: QuestionPanel_init_def Let_def)

lemma mount_panel_ok:
  "\<exists>p'. QuestionPanel_on_mount
           (QuestionPanel_compose ((QuestionPanel_init q i mc)\<lparr>display := d\<rparr>)) = Inr p'
        \<and> panel_ok p' \<and> pristine p' \<and> question_data p' = q"
proof -
  let ?c = "QuestionPanel_compose ((QuestionPanel_init q i mc)\<lparr>display := d\<rparr>)"
  have c: "question_data ?c = q" "panel_choices ?c = choices q"
    "total_options ?c = int (length (choices q)) + 1" "selected_option ?c = 0"
    "length (option_widgets ?c) = length (choices q)"
    "text_input ?c = Some \<lparr>placeholder = ''_'', input_classes = [''question-other-input''],
                       input_value = []\<rparr>"
    "question_text ?c \<noteq> None"
    by (simp_all add: QuestionPanel_compose_def QuestionPanel_init_fields Let_def)
  have "length (option_widgets ?c) \<le> length (panel_choices ?c)"
    using c by simp
  from update_options_returns [OF this] obtain p' where p': "update_options ?c = Inr p'"
    "question_data p' = question_data ?c"
    "panel_choices p' = panel_choices ?c"
    "selected_option p' = selected_option ?c"
    "total_options p' = total_options ?c"
    "length (option_widgets p') = length (option_widgets ?c)"
    "text_input p' = text_input ?c"
    "question_text p' = question_text ?c"
    "is_other_mode p' =
       (if text_input ?c = None then is_other_mode ?c
        else selected_option ?c = int (length (panel_choices ?c)))"
    by blast
  have ok: "panel_ok p'"
    using p'(2-9) c by (simp add: panel_ok_def)
  have pr: "pristine p'"
    using p'(2-9) c by (simp add: pristine_def other_text_def)
  have "QuestionPanel_on_mount ?c = Inr p'"
    using p'(1) by (simp add: QuestionPanel_on_mount_def)
  moreover have "question_data p' = q"
    using p'(2) c(1) by simp
  ultimately show ?thesis
    using ok pr by blast
qed

lemma mount_panels_ok:
  "\<exists>ps'. mount_panels
            (map (\<lambda>(i, q). (QuestionPanel_init q i mc)\<lparr>display := (i = 0)\<rparr>) (enumerate n qs))
          = Inr ps'
        \<and> list_all panel_ok ps' \<and> list_all pristine ps' \<and> map question_data ps' = qs"
proof (induction qs arbitrary: n)
  case Nil
  then show ?case by simp
next
  case (Cons q qs)
  from mount_panel_ok [where q = q and i = n and mc = mc and d = "n = 0"] obtain p' where
    p': "QuestionPanel_on_mount
           (QuestionPanel_compose ((QuestionPanel_init q n mc)\<lparr>display := (n = 0)\<rparr>)) = Inr p'"
    "panel_ok p'" "pristine p'" "question_data p' = q"
    by blast
  from Cons.IH [where n = "Suc n"] obtain ps' where
    ps': "mount_panels
            (map (\<lambda>(i, q). (QuestionPanel_init q i mc)\<lparr>display := (i = 0)\<rparr>)
               (enumerate (Suc n) qs)) = Inr ps'"
    "list_all panel_ok ps'" "list_all pristine ps'" "map question_data ps' = qs"
    by blast
  show ?case
    using p' ps' by (simp add: bind_err_def)
qed

lemma start_ok:
  "\<exists>s. start a = Inr s \<and> app_ok s \<and> questions s = args_questions a
        \<and> current_tab s = 0 \<and> posted s = [] \<and> list_all pristine (panel_widgets s)"
proof -
  let ?i = "QuestionApp_init a"
  let ?c = "QuestionApp_compose ?i"
  let ?qs = "args_questions a"
  have i: "questions ?i = ?qs" "current_tab ?i = 0" "tab_widgets ?i = []"
    "panel_widgets ?i = []" "posted ?i = []"
    by (simp_all add: QuestionApp_init_def)
  have c: "questions ?c = ?qs" "current_tab ?c = 0" "posted ?c = []"
    "panel_widgets ?c =
       map (\<lambda>(i, q). (QuestionPanel_init q i (max_choices ?i))\<lparr>display := (i = 0)\<rparr>)
         (enumerate 0 ?qs)"
    "tab_widgets ?c = [] \<or> length (tab_widgets ?c) = length ?qs"
    by (simp_all add: QuestionApp_compose_def Let_def i)
  from mount_panels_ok [where mc = "max_choices ?i" and n = 0 and qs = ?qs] obtain ps where
    ps: "mount_panels (panel_widgets ?c) = Inr ps" "list_all panel_ok ps"
    "list_all pristine ps" "map question_data ps = ?qs"
    unfolding c(4) by blast
  let ?m = "?c\<lparr>tab_widgets := map QuestionTab_on_mount (tab_widgets ?c), panel_widgets := ps\<rparr>"
  have m: "mount_children ?c = Inr ?m"
    using ps(1) by (simp add: mount_children_def bind_err_def)
  have len: "length ps = length ?qs"
    using ps(4) by (metis length_map)
  have tabs: "tab_widgets ?m = [] \<or> length (tab_widgets ?m) = length ps"
    using c(5) len by auto
  show ?thesis
  proof (cases "ps = []")
    case True
    then have "QuestionApp_on_mount ?m = Inr ?m"
      by (simp add: QuestionApp_on_mount_def)
    moreover have "app_ok ?m"
      using True ps(4) tabs c by (simp add: app_ok_def)
    ultimately show ?thesis
      using m True c by (simp add: start_def bind_err_def)
  next
    case False
    then have pos: "(0::int) < int (length ps)"
      by simp
    from update_at_cosmetic [OF ps(2) _ pos, of
        "change_question_text_classes (add_class ''question-text-active'')"]
    obtain ps1 where ps1: "update_at ps 0
        (change_question_text_classes (add_class ''question-text-active'')) = Inr ps1"
      "list_all2 same_core ps ps1"
      using change_classes_same_core by auto
    have ok1: "list_all panel_ok ps1"
      using list_all2_same_core_ok [OF ps1(2) ps(2)] .
    have pos1: "(0::int) < int (length ps1)"
      using pos ps1(2) by (simp add: list_all2_lengthD)
    from update_at_cosmetic [OF ok1 _ pos1, of "\<lambda>p. Inr (focus_input p)"]
    obtain ps2 where ps2: "update_at ps1 0 (\<lambda>p. Inr (focus_input p)) = Inr ps2"
      "list_all2 same_core ps1 ps2"
      using focus_input_same_core by auto
    have core: "list_all2 same_core ps ps2"
      using list_all2_same_core_trans [OF ps1(2) ps2(2)] .
    let ?s = "?m\<lparr>panel_widgets := ps2\<rparr>"
    have on: "QuestionApp_on_mount ?m = Inr ?s"
      using False ps1(1) ps2(1) by (simp add: QuestionApp_on_mount_def bind_err_def)
    have len2: "length ps2 = length ps"
      using core by (simp add: list_all2_lengthD)
    have "list_all panel_ok ps2"
      using list_all2_same_core_ok [OF core ps(2)] .
    moreover have "map question_data ps2 = ?qs"
      using list_all2_same_core_data [OF core] ps(4) by simp
    moreover have "list_all pristine ps2"
      using core ps(3)
      by (induction ps ps2 rule: list_all2_induct) (auto simp: same_core_pristine)
    ultimately have "app_ok ?s \<and> list_all pristine (panel_widgets ?s)"
      using tabs len2 pos c by (simp add: app_ok_def)
    then show ?thesis
      using m on c by (simp add: start_def bind_err_def)
  qed
qed

subsection \<open>Commands keep the invariant\<close>

lemma panel_ok_move_down:
  assumes "panel_ok p"
  shows "\<exists>p'. move_down p = Inr p' \<and> panel_ok p' \<and> question_data p' = question_data p"
proof -
  have t: "total_options p \<noteq> 0" "0 < total_options p"
    and w: "length (option_widgets p) \<le> length (panel_choices p)"
    using assms by (simp_all add: panel_ok_def)
  from move_down_returns [OF t(1) w] obtain p' where p': "move_down p = Inr p'"
    "selected_option p' = (selected_option p + 1) mod total_options p"
    "question_data p' = question_data p"
    "panel_choices p' = panel_choices p"
    "total_options p' = total_options p"
    "length (option_widgets p') = length (option_widgets p)"
    "text_input p' = text_input p"
    "question_text p' = question_text p"
    "is_other_mode p' =
       (if text_input p = None then is_other_mode p
        else (selected_option p + 1) mod total_options p = int (length (panel_choices p)))"
    by blast
  have "0 \<le> selected_option p'" "selected_option p' < total_options p'"
    unfolding p'(2,5) using t(2) by simp_all
  then have "panel_ok p'"
    using assms p'(2-9) by (auto simp: panel_ok_def)
  with p'(1,3) show ?thesis by blast
qed

lemma panel_ok_move_up:
  assumes "panel_ok p"
  shows "\<exists>p'. move_up p = Inr p' \<and> panel_ok p' \<and> question_data p' = question_data p"
proof -
  have t: "total_options p \<noteq> 0" "0 < total_options p"
    and w: "length (option_widgets p) \<le> length (panel_choices p)"
    using assms by (simp_all add: panel_ok_def)
  from move_up_returns [OF t(1) w] obtain p' where p': "move_up p = Inr p'"
    "selected_option p' = (selected_option p - 1) mod total_options p"
    "question_data p' = question_data p"
    "panel_choices p' = panel_choices p"
    "total_options p' = total_options p"
    "length (option_widgets p') = length (option_widgets p)"
    "text_input p' = text_input p"
    "question_text p' = question_text p"
    "is_other_mode p' =
       (if text_input p = None then is_other_mode p
        else (selected_option p - 1) mod total_options p = int (length (panel_choices p)))"
    by blast
  have "0 \<le> selected_option p'" "selected_option p' < total_options p'"
    unfolding p'(2,5) using t(2) by simp_all
  then have "panel_ok p'"
    using assms p'(2-9) by (auto simp: panel_ok_def)
  with p'(1,3) show ?thesis by blast
qed

lemma panel_ok_edit:
  assumes "panel_ok p" "text_input p = Some inp"
  shows "panel_ok (p\<lparr>text_input := Some (inp\<lparr>input_value := txt\<rparr>)\<rparr>)"
  using assms by (auto simp: panel_ok_def)

lemma get_current_panel_nonempty:
  "app_ok s \<Longrightarrow> panel_widgets s \<noteq> [] \<Longrightarrow>
     get_current_panel s = Some (panel_widgets s ! nat (current_tab s))"
  by (auto simp: app_ok_def get_current_panel_def)

lemma get_current_panel_empty: "panel_widgets s = [] \<Longrightarrow> get_current_panel s = None"
  by (simp add: get_current_panel_def)

lemma step_post_refl: "app_ok s \<Longrightarrow> step_post s s"
  by (simp add: step_post_def)

lemma replace_current_post:
  assumes ok: "app_ok s" and ne: "panel_widgets s \<noteq> []" and p': "panel_ok p'"
    and q: "question_data p' = question_data (panel_widgets s ! nat (current_tab s))"
  shows "step_post s (s\<lparr>panel_widgets := (panel_widgets s)[nat (current_tab s) := p']\<rparr>)"
proof -
  let ?k = "nat (current_tab s)"
  let ?ps = "panel_widgets s"
  have k: "?k < length ?ps" and c: "0 \<le> current_tab s"
    using ok ne by (auto simp: app_ok_def)
  have "list_all panel_ok (?ps[?k := p'])"
    using ok p' k by (auto simp: app_ok_def list_all_length nth_list_update)
  moreover have "map question_data (?ps[?k := p']) = map question_data ?ps"
    using q k by (simp add: map_update list_update_same_conv)
  moreover have "\<forall>j. int j \<noteq> current_tab s \<longrightarrow> (?ps[?k := p']) ! j = ?ps ! j"
    using c by auto
  ultimately show ?thesis
    using ok by (simp add: step_post_def app_ok_def)
qed

lemma action_move_down_post:
  assumes "app_ok s"
  shows "\<exists>s'. action_move_down s = Inr s' \<and> step_post s s'"
proof (cases "panel_widgets s = []")
  case True
  then show ?thesis
    using assms by (simp add: action_move_down_def get_current_panel_empty step_post_refl)
next
  case False
  let ?p = "panel_widgets s ! nat (current_tab s)"
  have "panel_ok ?p"
    using assms False by (auto simp: app_ok_def list_all_length)
  from panel_ok_move_down [OF this] obtain p' where p': "move_down ?p = Inr p'"
    "panel_ok p'" "question_data p' = question_data ?p"
    by blast
  have "action_move_down s
        = Inr (s\<lparr>panel_widgets := (panel_widgets s)[nat (current_tab s) := p']\<rparr>)"
    using p'(1) by (simp add: action_move_down_def get_current_panel_nonempty [OF assms False]
        bind_err_def)
  then show ?thesis
    using replace_current_post [OF assms False p'(2,3)] by simp
qed

lemma action_move_up_post:
  assumes "app_ok s"
  shows "\<exists>s'. action_move_up s = Inr s' \<and> step_post s s'"
proof (cases "panel_widgets s = []")
  case True
  then show ?thesis
    using assms by (simp add: action_move_up_def get_current_panel_empty step_post_refl)
next
  case False
  let ?p = "panel_widgets s ! nat (current_tab s)"
  have "panel_ok ?p"
    using assms False by (auto simp: app_ok_def list_all_length)
  from panel_ok_move_up [OF this] obtain p' where p': "move_up ?p = Inr p'"
    "panel_ok p'" "question_data p' = question_data ?p"
    by blast
  have "action_move_up s
        = Inr (s\<lparr>panel_widgets := (panel_widgets s)[nat (current_tab s) := p']\<rparr>)"
    using p'(1) by (simp add: action_move_up_def get_current_panel_nonempty [OF assms False]
        bind_err_def)
  then show ?thesis
    using replace_current_post [OF assms False p'(2,3)] by simp
qed

lemma edit_input_post:
  assumes "app_ok s"
  shows "step_post s (edit_input s txt)"
proof (cases "panel_widgets s = []")
  case True
  then show ?thesis
    using assms by (simp add: edit_input_def get_current_panel_empty step_post_refl)
next
  case False
  let ?p = "panel_widgets s ! nat (current_tab s)"
  have ok: "panel_ok ?p"
    using assms False by (auto simp: app_ok_def list_all_length)
  then obtain inp where inp: "text_input ?p = Some inp"
    by (auto simp: panel_ok_def)
  let ?p' = "?p\<lparr>text_input := Some (inp\<lparr>input_value := txt\<rparr>)\<rparr>"
  have "edit_input s txt = s\<lparr>panel_widgets := (panel_widgets s)[nat (current_tab s) := ?p']\<rparr>"
    using inp by (simp add: edit_input_def get_current_panel_nonempty [OF assms False])
  moreover have "panel_ok ?p'" "question_data ?p' = question_data ?p"
    using panel_ok_edit [OF ok inp] by simp_all
  ultimately show ?thesis
    using replace_current_post [OF assms False, of ?p'] by simp
qed

lemma update_at_tabs:
  "0 \<le> i \<Longrightarrow> i < int (length ts) \<Longrightarrow>
     \<exists>ts'. update_at ts i (\<lambda>t. Inr (g t)) = Inr ts' \<and> length ts' = length ts"
  by (simp add: update_at_in_range)

lemma switch_tab_post:
  assumes ok: "app_ok s" and n: "0 \<le> n" "n < int (length (panel_widgets s))"
  shows "\<exists>s'. switch_tab s n = Inr s' \<and> current_tab s' = n \<and> step_post s s'
           \<and> list_all2 same_core (panel_widgets s) (panel_widgets s')"
proof (cases "n = current_tab s")
  case True
  then show ?thesis
    using ok by (simp add: switch_tab_def step_post_refl list_all2_same_core_refl)
next
  case False
  let ?c = "current_tab s"
  let ?ps = "panel_widgets s"
  have c: "0 \<le> ?c" "?c < int (length ?ps)"
    using ok n by (auto simp: app_ok_def)
  have oks: "list_all panel_ok ?ps" and qs: "map question_data ?ps = questions s"
    and tl: "tab_widgets s = [] \<or> length (tab_widgets s) = length ?ps"
    using ok by (simp_all add: app_ok_def)
  have "\<exists>tabs. (if tab_widgets s \<noteq> []
           then bind_err (update_at (tab_widgets s) ?c (\<lambda>t. Inr (set_active t False))) (\<lambda>ts.
                update_at ts n (\<lambda>t. Inr (set_active t True)))
           else Inr (tab_widgets s)) = Inr tabs \<and> length tabs = length (tab_widgets s)"
  proof (cases "tab_widgets s = []")
    case True
    then show ?thesis by simp
  next
    case False
    then have l: "length (tab_widgets s) = length ?ps"
      using tl by simp
    from update_at_tabs [of ?c "tab_widgets s" "\<lambda>t. set_active t False"] c l
    obtain ts where ts: "update_at (tab_widgets s) ?c (\<lambda>t. Inr (set_active t False)) = Inr ts"
      "length ts = length (tab_widgets s)"
      by auto
    from update_at_tabs [of n ts "\<lambda>t. set_active t True"] n l ts(2)
    obtain ts' where ts': "update_at ts n (\<lambda>t. Inr (set_active t True)) = Inr ts'"
      "length ts' = length ts"
      by auto
    show ?thesis
      using False ts ts' by (simp add: bind_err_def)
  qed
  then obtain tabs where tabs: "(if tab_widgets s \<noteq> []
           then bind_err (update_at (tab_widgets s) ?c (\<lambda>t. Inr (set_active t False))) (\<lambda>ts.
                update_at ts n (\<lambda>t. Inr (set_active t True)))
           else Inr (tab_widgets s)) = Inr tabs" "length tabs = length (tab_widgets s)"
    by blast
  have g1: "getitem ?ps ?c = Inr (?ps ! nat ?c)" and g2: "getitem ?ps n = Inr (?ps ! nat n)"
    using c n by (simp_all add: getitem_in_range)
  from update_at_cosmetic [OF oks c, of
      "change_question_text_classes (remove_class ''question-text-active'')"]
  obtain ps1 where ps1: "update_at ?ps ?c
      (change_question_text_classes (remove_class ''question-text-active'')) = Inr ps1"
    "list_all2 same_core ?ps ps1" "\<forall>j. j \<noteq> nat ?c \<longrightarrow> ps1 ! j = ?ps ! j"
    using change_classes_same_core by blast
  have ok1: "list_all panel_ok ps1" and l1: "length ps1 = length ?ps"
    using list_all2_same_core_ok [OF ps1(2) oks] ps1(2) by (simp_all add: list_all2_lengthD)
  from update_at_cosmetic [OF ok1 n(1), of
      "change_question_text_classes (add_class ''question-text-active'')"] n(2) l1
  obtain ps2 where ps2: "update_at ps1 n
      (change_question_text_classes (add_class ''question-text-active'')) = Inr ps2"
    "list_all2 same_core ps1 ps2" "\<forall>j. j \<noteq> nat n \<longrightarrow> ps2 ! j = ps1 ! j"
    using change_classes_same_core by auto
  have ok2: "list_all panel_ok ps2" and l2: "length ps2 = length ?ps"
    using list_all2_same_core_ok [OF ps2(2) ok1] ps2(2) l1 by (simp_all add: list_all2_lengthD)
  from update_at_cosmetic [OF ok2 c(1), of "\<lambda>p. Inr (p\<lparr>display := False\<rparr>)"] c(2) l2
  obtain ps3 where ps3: "update_at ps2 ?c (\<lambda>p. Inr (p\<lparr>display := False\<rparr>)) = Inr ps3"
    "list_all2 same_core ps2 ps3" "\<forall>j. j \<noteq> nat ?c \<longrightarrow> ps3 ! j = ps2 ! j"
    using display_same_core by auto
  have ok3: "list_all panel_ok ps3" and l3: "length ps3 = length ?ps"
    using list_all2_same_core_ok [OF ps3(2) ok2] ps3(2) l2 by (simp_all add: list_all2_lengthD)
  from update_at_cosmetic [OF ok3 n(1), of "\<lambda>p. Inr (p\<lparr>display := True\<rparr>)"] n(2) l3
  obtain ps4 where ps4: "update_at ps3 n (\<lambda>p. Inr (p\<lparr>display := True\<rparr>)) = Inr ps4"
    "list_all2 same_core ps3 ps4" "\<forall>j. j \<noteq> nat n \<longrightarrow> ps4 ! j = ps3 ! j"
    using display_same_core by auto
  have ok4: "list_all panel_ok ps4" and l4: "length ps4 = length ?ps"
    using list_all2_same_core_ok [OF ps4(2) ok3] ps4(2) l3 by (simp_all add: list_all2_lengthD)
  from update_at_cosmetic [OF ok4 n(1), of "\<lambda>p. Inr (focus_input p)"] n(2) l4
  obtain ps5 where ps5: "update_at ps4 n (\<lambda>p. Inr (focus_input p)) = Inr ps5"
    "list_all2 same_core ps4 ps5" "\<forall>j. j \<noteq> nat n \<longrightarrow> ps5 ! j = ps4 ! j"
    using focus_input_same_core by auto
  have ok5: "list_all panel_ok ps5" and l5: "length ps5 = length ?ps"
    using list_all2_same_core_ok [OF ps5(2) ok4] ps5(2) l4 by (simp_all add: list_all2_lengthD)
  have core: "list_all2 same_core ?ps ps5"
    using ps1(2) ps2(2) ps3(2) ps4(2) ps5(2) by (blast intro: list_all2_same_core_trans)
  have data: "map question_data ps5 = questions s"
    using list_all2_same_core_data [OF core] qs by simp
  have rest: "\<forall>j. int j \<noteq> ?c \<longrightarrow> int j \<noteq> n \<longrightarrow> ps5 ! j = ?ps ! j"
  proof (intro allI impI)
    fix j
    assume "int j \<noteq> ?c" "int j \<noteq> n"
    then have "j \<noteq> nat ?c" "j \<noteq> nat n"
      using c(1) n(1) by auto
    then show "ps5 ! j = ?ps ! j"
      using ps1(3) ps2(3) ps3(3) ps4(3) ps5(3) by simp
  qed
  let ?s' = "s\<lparr>tab_widgets := tabs, panel_widgets := ps5, current_tab := n\<rparr>"
  have "switch_tab s n = Inr ?s'"
    unfolding switch_tab_def
    using False tabs(1) g1 g2 ps1(1) ps2(1) ps3(1) ps4(1) ps5(1)
    by (simp add: bind_err_def)
  moreover have "app_ok ?s'"
    using ok5 data tabs(2) tl l5 n by (auto simp: app_ok_def)
  moreover have "step_post s ?s'"
    using \<open>app_ok ?s'\<close> l5 rest by (simp add: step_post_def)
  moreover have "list_all2 same_core ?ps (panel_widgets ?s')"
    using core by simp
  ultimately show ?thesis by simp
qed

lemma action_next_tab_post:
  assumes "app_ok s"
  shows "\<exists>s'. action_next_tab s = Inr s' \<and> step_post s s'
           \<and> current_tab s' =
               (if length (panel_widgets s) > 1
                then (current_tab s + 1) mod int (length (panel_widgets s))
                else current_tab s)
           \<and> list_all2 same_core (panel_widgets s) (panel_widgets s')"
proof (cases "length (panel_widgets s) > 1")
  case False
  then show ?thesis
    using assms by (simp add: action_next_tab_def step_post_refl list_all2_same_core_refl)
next
  case True
  let ?n = "(current_tab s + 1) mod int (length (panel_widgets s))"
  have pos: "0 < int (length (panel_widgets s))"
    using True by auto
  have "0 \<le> ?n" "?n < int (length (panel_widgets s))"
    using pos by (rule pos_mod_sign, rule pos_mod_bound)
  from switch_tab_post [OF assms this] obtain s' where
    "switch_tab s ?n = Inr s'" "current_tab s' = ?n" "step_post s s'"
    "list_all2 same_core (panel_widgets s) (panel_widgets s')"
    by blast
  then show ?thesis
    using True by (auto simp: action_next_tab_def py_mod_def bind_err_def)
qed

lemma action_prev_tab_post:
  assumes "app_ok s"
  shows "\<exists>s'. action_prev_tab s = Inr s' \<and> step_post s s'
           \<and> current_tab s' =
               (if length (panel_widgets s) > 1
                then (current_tab s - 1) mod int (length (panel_widgets s))
                else current_tab s)
           \<and> list_all2 same_core (panel_widgets s) (panel_widgets s')"
proof (cases "length (panel_widgets s) > 1")
  case False
  then show ?thesis
    using assms by (simp add: action_prev_tab_def step_post_refl list_all2_same_core_refl)
next
  case True
  let ?n = "(current_tab s - 1) mod int (length (panel_widgets s))"
  have pos: "0 < int (length (panel_widgets s))"
    using True by auto
  have "0 \<le> ?n" "?n < int (length (panel_widgets s))"
    using pos by (rule pos_mod_sign, rule pos_mod_bound)
  from switch_tab_post [OF assms this] obtain s' where
    "switch_tab s ?n = Inr s'" "current_tab s' = ?n" "step_post s s'"
    "list_all2 same_core (panel_widgets s) (panel_widgets s')"
    by blast
  then show ?thesis
    using True by (auto simp: action_prev_tab_def py_mod_def bind_err_def)
qed

lemma step_keeps:
  assumes "app_ok s"
  shows "\<exists>s'. step s c = Inr s' \<and> step_post s s'"
proof (cases c)
  case MoveUp
  then show ?thesis using action_move_up_post [OF assms] by simp
next
  case MoveDown
  then show ?thesis using action_move_down_post [OF assms] by simp
next
  case NextTab
  then show ?thesis using action_next_tab_post [OF assms] by auto
next
  case PrevTab
  then show ?thesis using action_prev_tab_post [OF assms] by auto
next
  case (Edit t)
  then show ?thesis using edit_input_post [OF assms] by simp
qed

lemma run_post:
  assumes "app_ok s"
  shows "\<exists>s'. run s cs = Inr s' \<and> app_ok s'
           \<and> questions s' = questions s \<and> posted s' = posted s
           \<and> length (panel_widgets s') = length (panel_widgets s)"
  using assms
proof (induction cs arbitrary: s)
  case Nil
  then show ?case by simp
next
  case (Cons c cs)
  from step_keeps [OF Cons.prems, of c] obtain s1 where
    s1: "step s c = Inr s1" "step_post s s1"
    by blast
  then have ok1: "app_ok s1"
    by (simp add: step_post_def)
  from Cons.IH [OF ok1] obtain s' where s': "run s1 cs = Inr s'" "app_ok s'"
    "questions s' = questions s1" "posted s' = posted s1"
    "length (panel_widgets s') = length (panel_widgets s1)"
    by blast
  then show ?case
    using s1 by (simp add: bind_err_def step_post_def)
qed

text \<open>A command issued while another panel is active, and a tab command in any case,
  leaves a panel's selection and input as they were.\<close>

lemma step_alters_tab:
  "alters c \<Longrightarrow> step s c = Inr s' \<Longrightarrow> current_tab s' = current_tab s"
  by (cases c)
    (auto simp: action_move_up_def action_move_down_def edit_input_def bind_err_def
      split: option.splits sum.splits)

lemma step_unaltered:
  assumes ok: "app_ok s" and st: "step s c = Inr s'"
    and j: "j < length (panel_widgets s)"
    and na: "\<not> (current_tab s = int j \<and> alters c)"
  shows "pristine (panel_widgets s' ! j) = pristine (panel_widgets s ! j)"
proof (cases "alters c")
  case True
  then have "current_tab s \<noteq> int j"
    using na by simp
  moreover have "current_tab s' = current_tab s"
    using True st by (rule step_alters_tab)
  moreover have "step_post s s'"
    using step_keeps [OF ok, of c] st by simp
  ultimately have "panel_widgets s' ! j = panel_widgets s ! j"
    by (auto simp: step_post_def)
  then show ?thesis by simp
next
  case False
  have "list_all2 same_core (panel_widgets s) (panel_widgets s')"
  proof (cases c)
    case NextTab
    then show ?thesis using action_next_tab_post [OF ok] st by auto
  next
    case PrevTab
    then show ?thesis using action_prev_tab_post [OF ok] st by auto
  qed (use False in simp_all)
  then have "same_core (panel_widgets s ! j) (panel_widgets s' ! j)"
    using j by (simp add: list_all2_conv_all_nth)
  then show ?thesis by (rule same_core_pristine)
qed

lemma run_unaltered:
  assumes "app_ok s" "run s cs = Inr s'" "j < length (panel_widgets s)" "\<not> altered j s cs"
  shows "pristine (panel_widgets s' ! j) = pristine (panel_widgets s ! j)"
  using assms
proof (induction cs arbitrary: s)
  case Nil
  then show ?case by simp
next
  case (Cons c cs)
  from step_keeps [OF Cons.prems(1), of c] obtain s1 where
    s1: "step s c = Inr s1" "step_post s s1"
    by blast
  have ok1: "app_ok s1" and l1: "length (panel_widgets s1) = length (panel_widgets s)"
    using s1(2) by (simp_all add: step_post_def)
  have r: "run s1 cs = Inr s'"
    using Cons.prems(2) s1(1) by (simp add: bind_err_def)
  have na: "\<not> (current_tab s = int j \<and> alters c)" and na1: "\<not> altered j s1 cs"
    using Cons.prems(4) s1(1) by simp_all
  have j1: "j < length (panel_widgets s1)"
    using Cons.prems(3) l1 by simp
  have "pristine (panel_widgets s' ! j) = pristine (panel_widgets s1 ! j)"
    using ok1 r j1 na1 by (rule Cons.IH)
  also have "\<dots> = pristine (panel_widgets s ! j)"
    using Cons.prems(1) s1(1) Cons.prems(3) na by (rule step_unaltered)
  finally show ?case .
qed

lemma altered_visited: "altered j s cs \<Longrightarrow> visited j s cs"
  by (induction cs arbitrary: s) (auto split: sum.splits)

lemma tabs_alter_nothing: "list_all (\<lambda>c. \<not> alters c) cs \<Longrightarrow> \<not> altered j s cs"
  by (induction cs arbitrary: s) (auto split: sum.splits)

subsection \<open>Sessions\<close>

lemma session_ok:
  "\<exists>s. session a cs = Inr s \<and> app_ok s \<and> questions s = args_questions a \<and> posted s = []
        \<and> length (panel_widgets s) = length (args_questions a)
        \<and> (\<forall>j. j < length (args_questions a) \<longrightarrow> \<not> altered_in_session j a cs \<longrightarrow>
                pristine (panel_widgets s ! j))"
proof -
  from start_ok [of a] obtain s0 where s0: "start a = Inr s0" "app_ok s0"
    "questions s0 = args_questions a" "posted s0 = []" "list_all pristine (panel_widgets s0)"
    by blast
  from run_post [OF s0(2), of cs] obtain s where s: "run s0 cs = Inr s" "app_ok s"
    "questions s = questions s0" "posted s = posted s0"
    "length (panel_widgets s) = length (panel_widgets s0)"
    by blast
  have len0: "length (panel_widgets s0) = length (args_questions a)"
    using s0(2,3) by (metis app_ok_def length_map)
  have "\<forall>j. j < length (args_questions a) \<longrightarrow> \<not> altered_in_session j a cs \<longrightarrow>
            pristine (panel_widgets s ! j)"
  proof (intro allI impI)
    fix j
    assume j: "j < length (args_questions a)" and na: "\<not> altered_in_session j a cs"
    from na have "\<not> altered j s0 cs"
      by (simp add: altered_in_session_def s0(1))
    with s0(2) s(1) j len0
    have "pristine (panel_widgets s ! j) = pristine (panel_widgets s0 ! j)"
      by (simp add: run_unaltered)
    moreover have "pristine (panel_widgets s0 ! j)"
      using s0(5) j len0 by (simp add: list_all_length)
    ultimately show "pristine (panel_widgets s ! j)"
      by simp
  qed
  then show ?thesis
    using s0 s len0 by (simp add: session_def bind_err_def)
qed

lemma visited_in_session_start: "visited_in_session i a [] = (i = 0)"
proof -
  from start_ok [of a] obtain s0 where "start a = Inr s0" "current_tab s0 = 0"
    by blast
  then show ?thesis
    by (simp add: visited_in_session_def)
qed

lemma unvisited_unaltered: "\<not> visited_in_session j a cs \<Longrightarrow> \<not> altered_in_session j a cs"
  by (auto simp: visited_in_session_def altered_in_session_def split: sum.splits
      dest: altered_visited)

lemma tabs_alter_no_panel:
  "list_all (\<lambda>c. \<not> alters c) cs \<Longrightarrow> \<not> altered_in_session j a cs"
  by (simp add: altered_in_session_def tabs_alter_nothing split: sum.splits)

subsection \<open>Submission\<close>

lemma get_answer_returns: "panel_ok p \<Longrightarrow> \<exists>r. get_answer p = Inr r"
  by (auto simp: panel_ok_def get_answer_def getitem_in_range bind_err_def)

lemma get_answer_pristine:
  assumes "panel_ok p" "pristine p"
  shows "get_answer p =
           Inr (case choices (question_data p) of
                  [] \<Rightarrow> ([], True)
                | c # cs \<Rightarrow> (label c, False))"
proof (cases "choices (question_data p)")
  case Nil
  then show ?thesis
    using assms
    by (auto simp: panel_ok_def pristine_def get_answer_def other_text_def strip_def lstrip_def
        rstrip_def)
next
  case (Cons c cs)
  then have "getitem (panel_choices p) 0 = Inr c"
    using assms(1) by (simp add: panel_ok_def getitem_def)
  then show ?thesis
    using assms Cons by (simp add: panel_ok_def pristine_def get_answer_def bind_err_def)
qed

lemma collect_answers_returns:
  "list_all panel_ok ps \<Longrightarrow>
     \<exists>answers. collect_answers ps = Inr answers
       \<and> length answers = length ps
       \<and> map fst answers = map (\<lambda>p. question (question_data p)) ps
       \<and> map (\<lambda>(q, ans, is_other). Inr (ans, is_other)) answers = map get_answer ps"
proof (induction ps)
  case Nil
  then show ?case by simp
next
  case (Cons p ps)
  then have "panel_ok p" and "list_all panel_ok ps"
    by simp_all
  from get_answer_returns [OF this(1)] obtain ans o' where r: "get_answer p = Inr (ans, o')"
    by (metis surj_pair)
  from Cons.IH [OF \<open>list_all panel_ok ps\<close>] obtain rest where rest:
    "collect_answers ps = Inr rest" "length rest = length ps"
    "map fst rest = map (\<lambda>p. question (question_data p)) ps"
    "map (\<lambda>(q, ans, is_other). Inr (ans, is_other)) rest = map get_answer ps"
    by blast
  show ?case
    using r rest by (simp add: bind_err_def)
qed

text \<open>
  C1. After any run of commands, whatever tab is active, submitting calls \<open>get_answer\<close>
  on every panel in question order and posts one \<open>Answered\<close> message, the only message of
  the session: its answers are as many as the questions, carry the question texts in
  question order, and hold for each panel what its \<open>get_answer\<close> returns. A panel on which
  the run issued no move and no edit, the first panel and the panel of a single question
  included, contributes the label of its first choice with \<open>False\<close>, or the empty string
  with \<open>True\<close> when its question has no choices; so does, in particular, a panel that was
  never visited.
\<close>

theorem submit_collects_all_answers:
  "\<exists>s answers. session a cs = Inr s
     \<and> do_submit s = Inr (s\<lparr>posted := [Answered answers]\<rparr>)
     \<and> posted s = []
     \<and> length answers = length (args_questions a)
     \<and> map fst answers = map question (args_questions a)
     \<and> map (\<lambda>(q, ans, is_other). Inr (ans, is_other)) answers = map get_answer (panel_widgets s)
     \<and> (\<forall>i < length (args_questions a). \<not> altered_in_session i a cs \<longrightarrow>
           snd (answers ! i) =
             (case choices (args_questions a ! i) of
                [] \<Rightarrow> ([], True)
              | c # rest \<Rightarrow> (label c, False)))
     \<and> (\<forall>i < length (args_questions a). \<not> visited_in_session i a cs \<longrightarrow>
           snd (answers ! i) =
             (case choices (args_questions a ! i) of
                [] \<Rightarrow> ([], True)
              | c # rest \<Rightarrow> (label c, False)))"
proof -
  from session_ok [of a cs] obtain s where s: "session a cs = Inr s" "app_ok s"
    "questions s = args_questions a" "posted s = []"
    "length (panel_widgets s) = length (args_questions a)"
    "\<forall>j. j < length (args_questions a) \<longrightarrow> \<not> altered_in_session j a cs \<longrightarrow>
          pristine (panel_widgets s ! j)"
    by blast
  let ?ps = "panel_widgets s"
  have oks: "list_all panel_ok ?ps" and data: "map question_data ?ps = args_questions a"
    using s(2,3) by (simp_all add: app_ok_def)
  from collect_answers_returns [OF oks] obtain answers where an:
    "collect_answers ?ps = Inr answers" "length answers = length ?ps"
    "map fst answers = map (\<lambda>p. question (question_data p)) ?ps"
    "map (\<lambda>(q, ans, is_other). Inr (ans, is_other)) answers = map get_answer ?ps"
    by blast
  have sub: "do_submit s = Inr (s\<lparr>posted := [Answered answers]\<rparr>)"
    using an(1) s(4) by (simp add: do_submit_def bind_err_def)
  have texts: "map fst answers = map question (args_questions a)"
  proof -
    have "map (\<lambda>p. question (question_data p)) ?ps = map question (map question_data ?ps)"
      by simp
    then show ?thesis
      using an(3) data by simp
  qed
  have unaltered: "\<forall>i < length (args_questions a). \<not> altered_in_session i a cs \<longrightarrow>
           snd (answers ! i) =
             (case choices (args_questions a ! i) of
                [] \<Rightarrow> ([], True)
              | c # rest \<Rightarrow> (label c, False))"
  proof (intro allI impI)
    fix i
    assume i: "i < length (args_questions a)" and na: "\<not> altered_in_session i a cs"
    let ?p = "?ps ! i"
    have il: "i < length ?ps"
      using i s(5) by simp
    have ok: "panel_ok ?p"
      using oks il by (simp add: list_all_length)
    have pr: "pristine ?p"
      using s(6) i na by simp
    have q: "question_data ?p = args_questions a ! i"
      using data il by (metis nth_map)
    have "(map (\<lambda>(q, ans, is_other). Inr (ans, is_other)) answers) ! i = (map get_answer ?ps) ! i"
      using an(4) by simp
    then have "(\<lambda>(q, ans, is_other). Inr (ans, is_other)) (answers ! i) = get_answer ?p"
      using il an(2) by simp
    then have "Inr (snd (answers ! i)) = get_answer ?p"
      by (simp add: case_prod_beta)
    then show "snd (answers ! i) =
             (case choices (args_questions a ! i) of
                [] \<Rightarrow> ([], True)
              | c # rest \<Rightarrow> (label c, False))"
      using get_answer_pristine [OF ok pr] q by simp
  qed
  then have unvisited: "\<forall>i < length (args_questions a). \<not> visited_in_session i a cs \<longrightarrow>
           snd (answers ! i) =
             (case choices (args_questions a ! i) of
                [] \<Rightarrow> ([], True)
              | c # rest \<Rightarrow> (label c, False))"
    using unvisited_unaltered by blast
  have "session a cs = Inr s
     \<and> do_submit s = Inr (s\<lparr>posted := [Answered answers]\<rparr>)
     \<and> posted s = []
     \<and> length answers = length (args_questions a)
     \<and> map fst answers = map question (args_questions a)
     \<and> map (\<lambda>(q, ans, is_other). Inr (ans, is_other)) answers = map get_answer (panel_widgets s)"
    using s(1,4,5) sub an(2,4) texts by simp
  with unaltered unvisited show ?thesis
    by blast
qed

theorem submit_collects_all_answers_witness:
  "\<not> altered_in_session 0
       \<lparr>args_questions =
          [\<lparr>question = ''Q1 text'',
            choices = [\<lparr>label = ''yes'', choice_description = None\<rparr>,
                       \<lparr>label = ''no'', choice_description = None\<rparr>]\<rparr>,
           \<lparr>question = ''Q2 text'', choices = []\<rparr>]\<rparr> []
   \<and> \<not> visited_in_session 1
       \<lparr>args_questions =
          [\<lparr>question = ''Q1 text'',
            choices = [\<lparr>label = ''yes'', choice_description = None\<rparr>,
                       \<lparr>label = ''no'', choice_description = None\<rparr>]\<rparr>,
           \<lparr>question = ''Q2 text'', choices = []\<rparr>]\<rparr> []
   \<and> (\<exists>s. session
          \<lparr>args_questions =
          [\<lparr>question = ''Q1 text'',
            choices = [\<lparr>label = ''yes'', choice_description = None\<rparr>,
                       \<lparr>label = ''no'', choice_description = None\<rparr>]\<rparr>,
           \<lparr>question = ''Q2 text'', choices = []\<rparr>]\<rparr> [] = Inr s
        \<and> do_submit s =
            Inr (s\<lparr>posted :=
                   [Answered [(''Q1 text'', ''yes'', False), (''Q2 text'', [], True)]]\<rparr>))
   \<and> \<not> altered_in_session 0
       \<lparr>args_questions =
          [\<lparr>question = ''Q1 text'',
            choices = [\<lparr>label = ''yes'', choice_description = None\<rparr>,
                       \<lparr>label = ''no'', choice_description = None\<rparr>]\<rparr>,
           \<lparr>question = ''Q2 text'', choices = []\<rparr>]\<rparr> [NextTab]
   \<and> visited_in_session 1
       \<lparr>args_questions =
          [\<lparr>question = ''Q1 text'',
            choices = [\<lparr>label = ''yes'', choice_description = None\<rparr>,
                       \<lparr>label = ''no'', choice_description = None\<rparr>]\<rparr>,
           \<lparr>question = ''Q2 text'', choices = []\<rparr>]\<rparr> [NextTab]
   \<and> \<not> altered_in_session 1
       \<lparr>args_questions =
          [\<lparr>question = ''Q1 text'',
            choices = [\<lparr>label = ''yes'', choice_description = None\<rparr>,
                       \<lparr>label = ''no'', choice_description = None\<rparr>]\<rparr>,
           \<lparr>question = ''Q2 text'', choices = []\<rparr>]\<rparr> [NextTab]
   \<and> (\<exists>s. session
          \<lparr>args_questions =
          [\<lparr>question = ''Q1 text'',
            choices = [\<lparr>label = ''yes'', choice_description = None\<rparr>,
                       \<lparr>label = ''no'', choice_description = None\<rparr>]\<rparr>,
           \<lparr>question = ''Q2 text'', choices = []\<rparr>]\<rparr> [NextTab] = Inr s
        \<and> do_submit s =
            Inr (s\<lparr>posted :=
                   [Answered [(''Q1 text'', ''yes'', False), (''Q2 text'', [], True)]]\<rparr>))"
proof -
  let ?a = "\<lparr>args_questions =
          [\<lparr>question = ''Q1 text'',
            choices = [\<lparr>label = ''yes'', choice_description = None\<rparr>,
                       \<lparr>label = ''no'', choice_description = None\<rparr>]\<rparr>,
           \<lparr>question = ''Q2 text'', choices = []\<rparr>]\<rparr>"
  have na: "\<not> altered_in_session 0 ?a []"
    by (simp add: altered_in_session_def split: sum.splits)
  have nv: "\<not> visited_in_session 1 ?a []"
    by (simp add: visited_in_session_start)
  from submit_collects_all_answers [of ?a "[]"] obtain s answers where
    r: "session ?a [] = Inr s" "do_submit s = Inr (s\<lparr>posted := [Answered answers]\<rparr>)"
    "length answers = length (args_questions ?a)"
    "map fst answers = map question (args_questions ?a)"
    and u: "\<forall>i < length (args_questions ?a). \<not> altered_in_session i ?a [] \<longrightarrow>
           snd (answers ! i) =
             (case choices (args_questions ?a ! i) of
                [] \<Rightarrow> ([], True)
              | c # rest \<Rightarrow> (label c, False))"
    and v: "\<forall>i < length (args_questions ?a). \<not> visited_in_session i ?a [] \<longrightarrow>
           snd (answers ! i) =
             (case choices (args_questions ?a ! i) of
                [] \<Rightarrow> ([], True)
              | c # rest \<Rightarrow> (label c, False))"
    by blast
  from r(3) obtain x y where xy: "answers = [x, y]"
    by (auto simp: length_Suc_conv numeral_2_eq_2)
  have "snd (answers ! 0) = (''yes'', False)"
    using u na by simp
  moreover have "snd (answers ! 1) = ([], True)"
    using v nv by simp
  ultimately have "answers = [(''Q1 text'', ''yes'', False), (''Q2 text'', [], True)]"
    using r(4) xy by (auto simp: prod_eq_iff)
  with r(1,2) have first: "\<exists>s. session ?a [] = Inr s
        \<and> do_submit s =
            Inr (s\<lparr>posted :=
                   [Answered [(''Q1 text'', ''yes'', False), (''Q2 text'', [], True)]]\<rparr>)"
    by blast
  have nt: "\<not> altered_in_session j ?a [NextTab]" for j
    by (simp add: tabs_alter_no_panel)
  have vis: "visited_in_session 1 ?a [NextTab]"
  proof -
    from start_ok [of ?a] obtain s0 where s0: "start ?a = Inr s0" "app_ok s0"
      "questions s0 = args_questions ?a" "current_tab s0 = 0"
      by blast
    have "length (map question_data (panel_widgets s0)) = length (args_questions ?a)"
      using s0(2,3) by (simp add: app_ok_def)
    then have l: "length (panel_widgets s0) = 2"
      by simp
    from action_next_tab_post [OF s0(2)] obtain s1 where "action_next_tab s0 = Inr s1"
      "current_tab s1 =
         (if length (panel_widgets s0) > 1
          then (current_tab s0 + 1) mod int (length (panel_widgets s0))
          else current_tab s0)"
      by blast
    then show ?thesis
      using s0(1,4) l by (simp add: visited_in_session_def)
  qed
  from submit_collects_all_answers [of ?a "[NextTab]"] obtain s' answers' where
    r': "session ?a [NextTab] = Inr s'"
    "do_submit s' = Inr (s'\<lparr>posted := [Answered answers']\<rparr>)"
    "length answers' = length (args_questions ?a)"
    "map fst answers' = map question (args_questions ?a)"
    and u': "\<forall>i < length (args_questions ?a). \<not> altered_in_session i ?a [NextTab] \<longrightarrow>
           snd (answers' ! i) =
             (case choices (args_questions ?a ! i) of
                [] \<Rightarrow> ([], True)
              | c # rest \<Rightarrow> (label c, False))"
    by blast
  from r'(3) obtain x' y' where xy': "answers' = [x', y']"
    by (auto simp: length_Suc_conv numeral_2_eq_2)
  have "snd (answers' ! 0) = (''yes'', False)"
    using u' nt [of 0] by simp
  moreover have "snd (answers' ! 1) = ([], True)"
    using u' nt [of 1] by simp
  ultimately have "answers' = [(''Q1 text'', ''yes'', False), (''Q2 text'', [], True)]"
    using r'(4) xy' by (auto simp: prod_eq_iff)
  with r'(1,2) have second: "\<exists>s. session ?a [NextTab] = Inr s
        \<and> do_submit s =
            Inr (s\<lparr>posted :=
                   [Answered [(''Q1 text'', ''yes'', False), (''Q2 text'', [], True)]]\<rparr>)"
    by blast
  show ?thesis
    using na nv first nt [of 0] vis nt [of 1] second by blast
qed

subsection \<open>The other-mode flag\<close>

lemma panel_ok_other_mode:
  "list_all panel_ok ps \<Longrightarrow>
     list_all (\<lambda>p. is_other_mode p = (selected_option p = int (length (panel_choices p)))) ps"
  by (induction ps) (simp_all add: panel_ok_def)

text \<open>
  C3, as amended. In every state of a session from its mount on, after any run of
  commands, every panel has \<open>is_other_mode\<close> true exactly when \<open>selected_option\<close> equals
  the number of choices; so has a panel right after it was composed and mounted, whatever
  its visibility. Until the mount \<open>is_other_mode\<close> is false for every choice list: right
  after construction, after the controller has set the visibility, and after \<open>compose\<close>
  has created the children, in particular in every panel that the controller has
  composed and not yet mounted. In each of these states the equivalence holds exactly
  when the choice list is not empty.
\<close>

theorem other_mode_follows_selection_from_mount:
  "(\<exists>s. session a cs = Inr s
       \<and> list_all (\<lambda>p. is_other_mode p = (selected_option p = int (length (panel_choices p))))
           (panel_widgets s))
   \<and> (\<exists>p. QuestionPanel_on_mount (QuestionPanel_compose (QuestionPanel_init q i mc)) = Inr p
       \<and> is_other_mode p = (selected_option p = int (length (panel_choices p))))
   \<and> (\<exists>p. QuestionPanel_on_mount
             (QuestionPanel_compose ((QuestionPanel_init q i mc)\<lparr>display := d\<rparr>)) = Inr p
       \<and> is_other_mode p = (selected_option p = int (length (panel_choices p))))
   \<and> is_other_mode (QuestionPanel_init q i mc) = False
   \<and> (is_other_mode (QuestionPanel_init q i mc)
        = (selected_option (QuestionPanel_init q i mc)
            = int (length (panel_choices (QuestionPanel_init q i mc)))))
      = (choices q \<noteq> [])
   \<and> is_other_mode ((QuestionPanel_init q i mc)\<lparr>display := d\<rparr>) = False
   \<and> (is_other_mode ((QuestionPanel_init q i mc)\<lparr>display := d\<rparr>)
        = (selected_option ((QuestionPanel_init q i mc)\<lparr>display := d\<rparr>)
            = int (length (panel_choices ((QuestionPanel_init q i mc)\<lparr>display := d\<rparr>)))))
      = (choices q \<noteq> [])
   \<and> is_other_mode (QuestionPanel_compose (QuestionPanel_init q i mc)) = False
   \<and> (is_other_mode (QuestionPanel_compose (QuestionPanel_init q i mc))
        = (selected_option (QuestionPanel_compose (QuestionPanel_init q i mc))
            = int (length (panel_choices (QuestionPanel_compose (QuestionPanel_init q i mc))))))
      = (choices q \<noteq> [])
   \<and> is_other_mode (QuestionPanel_compose ((QuestionPanel_init q i mc)\<lparr>display := d\<rparr>)) = False
   \<and> (is_other_mode (QuestionPanel_compose ((QuestionPanel_init q i mc)\<lparr>display := d\<rparr>))
        = (selected_option (QuestionPanel_compose ((QuestionPanel_init q i mc)\<lparr>display := d\<rparr>))
            = int (length (panel_choices
                    (QuestionPanel_compose ((QuestionPanel_init q i mc)\<lparr>display := d\<rparr>))))))
      = (choices q \<noteq> [])
   \<and> list_all (\<lambda>p. is_other_mode p = False \<and> is_other_mode (QuestionPanel_compose p) = False)
       (panel_widgets (QuestionApp_compose (QuestionApp_init a)))"
proof -
  from session_ok [of a cs] obtain s where "session a cs = Inr s" "app_ok s"
    by blast
  then have one: "\<exists>s. session a cs = Inr s
       \<and> list_all (\<lambda>p. is_other_mode p = (selected_option p = int (length (panel_choices p))))
           (panel_widgets s)"
    using panel_ok_other_mode [of "panel_widgets s"] by (auto simp: app_ok_def)
  have mounted: "\<exists>p. QuestionPanel_on_mount
        (QuestionPanel_compose ((QuestionPanel_init q i mc)\<lparr>display := d'\<rparr>)) = Inr p
       \<and> is_other_mode p = (selected_option p = int (length (panel_choices p)))" for d'
    using mount_panel_ok [where q = q and i = i and mc = mc and d = d']
    by (auto simp: panel_ok_def)
  have "(QuestionPanel_init q i mc)\<lparr>display := True\<rparr> = QuestionPanel_init q i mc"
    by (simp add: QuestionPanel_init_def Let_def)
  with mounted [of True] have two: "\<exists>p. QuestionPanel_on_mount
        (QuestionPanel_compose (QuestionPanel_init q i mc)) = Inr p
       \<and> is_other_mode p = (selected_option p = int (length (panel_choices p)))"
    by simp
  have constructed: "is_other_mode (QuestionPanel_init q i mc) = False"
    "(is_other_mode (QuestionPanel_init q i mc)
        = (selected_option (QuestionPanel_init q i mc)
            = int (length (panel_choices (QuestionPanel_init q i mc)))))
      = (choices q \<noteq> [])"
    "is_other_mode ((QuestionPanel_init q i mc)\<lparr>display := d\<rparr>) = False"
    "(is_other_mode ((QuestionPanel_init q i mc)\<lparr>display := d\<rparr>)
        = (selected_option ((QuestionPanel_init q i mc)\<lparr>display := d\<rparr>)
            = int (length (panel_choices ((QuestionPanel_init q i mc)\<lparr>display := d\<rparr>)))))
      = (choices q \<noteq> [])"
    by (simp_all add: QuestionPanel_init_fields)
  have composed: "is_other_mode (QuestionPanel_compose (QuestionPanel_init q i mc)) = False"
    "(is_other_mode (QuestionPanel_compose (QuestionPanel_init q i mc))
        = (selected_option (QuestionPanel_compose (QuestionPanel_init q i mc))
            = int (length (panel_choices (QuestionPanel_compose (QuestionPanel_init q i mc))))))
      = (choices q \<noteq> [])"
    "is_other_mode (QuestionPanel_compose ((QuestionPanel_init q i mc)\<lparr>display := d\<rparr>)) = False"
    "(is_other_mode (QuestionPanel_compose ((QuestionPanel_init q i mc)\<lparr>display := d\<rparr>))
        = (selected_option (QuestionPanel_compose ((QuestionPanel_init q i mc)\<lparr>display := d\<rparr>))
            = int (length (panel_choices
                    (QuestionPanel_compose ((QuestionPanel_init q i mc)\<lparr>display := d\<rparr>))))))
      = (choices q \<noteq> [])"
    by (simp_all add: QuestionPanel_compose_def QuestionPanel_init_fields Let_def)
  have unmounted:
    "list_all (\<lambda>p. is_other_mode p = False \<and> is_other_mode (QuestionPanel_compose p) = False)
       (panel_widgets (QuestionApp_compose (QuestionApp_init a)))"
    by (simp add: QuestionApp_compose_def QuestionApp_init_def Let_def list_all_iff
        QuestionPanel_compose_def QuestionPanel_init_fields split_beta)
  show ?thesis
    using one two mounted [of d] constructed composed unmounted by blast
qed

theorem other_mode_after_construction_counterexample:
  "\<not> (is_other_mode (QuestionPanel_init \<lparr>question = ''Q'', choices = []\<rparr> 0 6)
       = (selected_option (QuestionPanel_init \<lparr>question = ''Q'', choices = []\<rparr> 0 6)
           = int (length (panel_choices
                   (QuestionPanel_init \<lparr>question = ''Q'', choices = []\<rparr> 0 6)))))"
  by (simp add: QuestionPanel_init_def)

subsection \<open>Tabs\<close>

lemma next_tab_modulo:
  assumes ok: "app_ok s" and ne: "panel_widgets s \<noteq> []"
  shows "\<exists>s'. action_next_tab s = Inr s' \<and> app_ok s'
           \<and> length (panel_widgets s') = length (panel_widgets s)
           \<and> current_tab s' = (current_tab s + 1) mod int (length (panel_widgets s))"
proof -
  from action_next_tab_post [OF ok] obtain s' where s': "action_next_tab s = Inr s'"
    "step_post s s'"
    "current_tab s' =
       (if length (panel_widgets s) > 1
        then (current_tab s + 1) mod int (length (panel_widgets s))
        else current_tab s)"
    by blast
  have "current_tab s' = (current_tab s + 1) mod int (length (panel_widgets s))"
  proof (cases "length (panel_widgets s) > 1")
    case True
    with s'(3) show ?thesis by simp
  next
    case False
    with ne have l: "length (panel_widgets s) = 1"
      by (cases "panel_widgets s") simp_all
    then have "current_tab s = 0"
      using ok by (auto simp: app_ok_def)
    with s'(3) l show ?thesis by simp
  qed
  with s'(1,2) show ?thesis
    by (auto simp: step_post_def)
qed

lemma prev_tab_modulo:
  assumes ok: "app_ok s" and ne: "panel_widgets s \<noteq> []"
  shows "\<exists>s'. action_prev_tab s = Inr s'
           \<and> current_tab s' = (current_tab s - 1) mod int (length (panel_widgets s))"
proof -
  from action_prev_tab_post [OF ok] obtain s' where s': "action_prev_tab s = Inr s'"
    "current_tab s' =
       (if length (panel_widgets s) > 1
        then (current_tab s - 1) mod int (length (panel_widgets s))
        else current_tab s)"
    by blast
  have "current_tab s' = (current_tab s - 1) mod int (length (panel_widgets s))"
  proof (cases "length (panel_widgets s) > 1")
    case True
    with s'(2) show ?thesis by simp
  next
    case False
    with ne have l: "length (panel_widgets s) = 1"
      by (cases "panel_widgets s") simp_all
    then have "current_tab s = 0"
      using ok by (auto simp: app_ok_def)
    with s'(2) l show ?thesis by simp
  qed
  with s'(1) show ?thesis by blast
qed

lemma repeat_next_tab:
  assumes "app_ok s" "panel_widgets s \<noteq> []"
  shows "\<exists>s'. repeat_call action_next_tab k s = Inr s'
           \<and> current_tab s' = (current_tab s + int k) mod int (length (panel_widgets s))"
  using assms
proof (induction k arbitrary: s)
  case 0
  then have "0 \<le> current_tab s" "current_tab s < int (length (panel_widgets s))"
    by (auto simp: app_ok_def)
  then show ?case by simp
next
  case (Suc k)
  from next_tab_modulo [OF Suc.prems] obtain s1 where s1: "action_next_tab s = Inr s1"
    "app_ok s1" "length (panel_widgets s1) = length (panel_widgets s)"
    "current_tab s1 = (current_tab s + 1) mod int (length (panel_widgets s))"
    by blast
  have ne1: "panel_widgets s1 \<noteq> []"
    using s1(3) Suc.prems(2) by (metis length_0_conv)
  from Suc.IH [OF s1(2) ne1] obtain s' where s': "repeat_call action_next_tab k s1 = Inr s'"
    "current_tab s' = (current_tab s1 + int k) mod int (length (panel_widgets s1))"
    by blast
  have "(current_tab s1 + int k) mod int (length (panel_widgets s1))
        = (current_tab s + int (Suc k)) mod int (length (panel_widgets s))"
    unfolding s1(3,4) by (simp add: mod_add_left_eq add.assoc)
  with s' s1(1) show ?case
    by (simp add: bind_err_def)
qed

text \<open>
  C8. In every state of a session with at least one question, after any run of
  commands: \<open>next_tab\<close> sets the active tab to \<open>(active_tab + 1) mod len(panels)\<close> and
  \<open>prev_tab\<close> sets it to \<open>(active_tab - 1) mod len(panels)\<close>; \<open>len(panels)\<close> calls of
  \<open>next_tab\<close> lead back to the active tab they started from; and with a single panel both
  leave the whole state as it is.
\<close>

theorem tab_navigation_cycles:
  assumes "args_questions a \<noteq> []"
  shows "\<exists>s. session a cs = Inr s
     \<and> length (panel_widgets s) = length (args_questions a)
     \<and> (\<exists>s'. action_next_tab s = Inr s'
           \<and> current_tab s' = (current_tab s + 1) mod int (length (panel_widgets s)))
     \<and> (\<exists>s'. action_prev_tab s = Inr s'
           \<and> current_tab s' = (current_tab s - 1) mod int (length (panel_widgets s)))
     \<and> (\<exists>s'. repeat_call action_next_tab (length (panel_widgets s)) s = Inr s'
           \<and> current_tab s' = current_tab s)
     \<and> (length (panel_widgets s) = 1 \<longrightarrow>
           action_next_tab s = Inr s \<and> action_prev_tab s = Inr s)"
proof -
  from session_ok [of a cs] obtain s where s: "session a cs = Inr s" "app_ok s"
    "length (panel_widgets s) = length (args_questions a)"
    by blast
  have ne: "panel_widgets s \<noteq> []"
    using s(3) assms by (metis length_0_conv)
  have range: "0 \<le> current_tab s" "current_tab s < int (length (panel_widgets s))"
    using s(2) ne by (auto simp: app_ok_def)
  from repeat_next_tab [OF s(2) ne, of "length (panel_widgets s)"] range
  have cyc: "\<exists>s'. repeat_call action_next_tab (length (panel_widgets s)) s = Inr s'
           \<and> current_tab s' = current_tab s"
    by simp
  have single: "length (panel_widgets s) = 1 \<longrightarrow>
           action_next_tab s = Inr s \<and> action_prev_tab s = Inr s"
    by (simp add: action_next_tab_def action_prev_tab_def)
  show ?thesis
    using s(1,3) next_tab_modulo [OF s(2) ne] prev_tab_modulo [OF s(2) ne] cyc single
    by blast
qed

theorem tab_navigation_cycles_witness:
  "args_questions
     \<lparr>args_questions =
        [\<lparr>question = ''Q1 text'',
          choices = [\<lparr>label = ''yes'', choice_description = None\<rparr>]\<rparr>,
         \<lparr>question = ''Q2 text'', choices = []\<rparr>,
         \<lparr>question = ''Q3 text'', choices = []\<rparr>]\<rparr> \<noteq> []
   \<and> (\<exists>s. session
            \<lparr>args_questions =
               [\<lparr>question = ''Q1 text'',
                 choices = [\<lparr>label = ''yes'', choice_description = None\<rparr>]\<rparr>,
                \<lparr>question = ''Q2 text'', choices = []\<rparr>,
                \<lparr>question = ''Q3 text'', choices = []\<rparr>]\<rparr> [NextTab, MoveDown] = Inr s
        \<and> length (panel_widgets s) = 3
        \<and> (\<exists>s'. action_next_tab s = Inr s' \<and> current_tab s' = (current_tab s + 1) mod 3)
        \<and> (\<exists>s'. action_prev_tab s = Inr s' \<and> current_tab s' = (current_tab s - 1) mod 3)
        \<and> (\<exists>s'. repeat_call action_next_tab 3 s = Inr s' \<and> current_tab s' = current_tab s))"
proof -
  let ?a = "\<lparr>args_questions =
               [\<lparr>question = ''Q1 text'',
                 choices = [\<lparr>label = ''yes'', choice_description = None\<rparr>]\<rparr>,
                \<lparr>question = ''Q2 text'', choices = []\<rparr>,
                \<lparr>question = ''Q3 text'', choices = []\<rparr>]\<rparr>"
  have ne: "args_questions ?a \<noteq> []"
    by simp
  from tab_navigation_cycles [OF ne, of "[NextTab, MoveDown]"] obtain s where
    s: "session ?a [NextTab, MoveDown] = Inr s"
    "length (panel_widgets s) = length (args_questions ?a)"
    "\<exists>s'. action_next_tab s = Inr s'
           \<and> current_tab s' = (current_tab s + 1) mod int (length (panel_widgets s))"
    "\<exists>s'. action_prev_tab s = Inr s'
           \<and> current_tab s' = (current_tab s - 1) mod int (length (panel_widgets s))"
    "\<exists>s'. repeat_call action_next_tab (length (panel_widgets s)) s = Inr s'
           \<and> current_tab s' = current_tab s"
    by blast
  have l: "length (panel_widgets s) = 3"
    using s(2) by simp
  show ?thesis
    using ne s(1) s(3-5) l by auto
qed

subsection \<open>Escape\<close>

text \<open>Each handler that reacts to escape stops the key event where it receives one and
  posts exactly one message: the input posts \<open>EscapePressed\<close>, the panel posts
  \<open>CancelRequested\<close>, the controller posts \<open>Cancelled\<close>. Which of these handlers run
  for one key press is decided by the dispatch of the user-interface framework.\<close>

lemma escape_handlers:
  "EscapableInput_on_key \<lparr>key = ''escape'', stopped = False\<rparr>
     = (\<lparr>key = ''escape'', stopped = True\<rparr>, [EscapePressed])"
  "QuestionPanel_on_key \<lparr>key = ''escape'', stopped = False\<rparr>
     = (\<lparr>key = ''escape'', stopped = True\<rparr>, [CancelRequested])"
  "on_escapable_input_escape_pressed = [CancelRequested]"
  "QuestionPanel_action_cancel = [CancelRequested]"
  "posted (on_question_panel_cancel_requested s) = posted s @ [Cancelled]"
  "posted (action_cancel s) = posted s @ [Cancelled]"
  by (simp_all add: EscapableInput_on_key_def QuestionPanel_on_key_def
      on_escapable_input_escape_pressed_def QuestionPanel_action_cancel_def
      on_question_panel_cancel_requested_def action_cancel_def)

end
